theory Spec2Isabelle
  imports Main "HOL-Library.Word" "HOL-Library.AList"
begin

unbundle bit_operations_syntax

section \<open>Values of the program\<close>

text \<open>
  A JavaScript string is represented by the list of its UTF-8 bytes (\<open>string\<close> is a list
  of 8-bit characters).  The characters the program looks for (\<open>@\<close> and \<open>.\<close>) and the ones
  it produces are ASCII, and an ASCII byte never occurs inside a multi-byte UTF-8 sequence,
  so \<open>split\<close>, \<open>startsWith\<close> and \<open>substring\<close> act on the bytes as they act on the
  code units.  Objects live in a store and are referred to by address, because
  \<open>anonymizeCustomer\<close> shares the address object between its argument and its result.
\<close>

type_synonym addr = nat

datatype jsval =
    JUndefined
  | JNull
  | JBool bool
  | JNum int
  | JStr string
  | JObj addr

datatype error = TypeError | SyntaxError

section \<open>The digest: \<open>crypto.createHash('md5').update(input).digest('hex')\<close>\<close>

text \<open>
  The MD5 function of the Node library (RFC 1321) on the UTF-8 bytes of the input:
  padding to a multiple of 64 bytes, sixteen little-endian 32-bit words per block,
  sixty-four steps per block, the four state words written out little-endian.
\<close>

type_synonym byte = "8 word"
type_synonym u32 = "32 word"

definition md5_K :: "u32 list" where
  "md5_K =
    [0xd76aa478, 0xe8c7b756, 0x242070db, 0xc1bdceee, 0xf57c0faf, 0x4787c62a, 0xa8304613, 0xfd469501,
     0x698098d8, 0x8b44f7af, 0xffff5bb1, 0x895cd7be, 0x6b901122, 0xfd987193, 0xa679438e, 0x49b40821,
     0xf61e2562, 0xc040b340, 0x265e5a51, 0xe9b6c7aa, 0xd62f105d, 0x02441453, 0xd8a1e681, 0xe7d3fbc8,
     0x21e1cde6, 0xc33707d6, 0xf4d50d87, 0x455a14ed, 0xa9e3e905, 0xfcefa3f8, 0x676f02d9, 0x8d2a4c8a,
     0xfffa3942, 0x8771f681, 0x6d9d6122, 0xfde5380c, 0xa4beea44, 0x4bdecfa9, 0xf6bb4b60, 0xbebfbc70,
     0x289b7ec6, 0xeaa127fa, 0xd4ef3085, 0x04881d05, 0xd9d4d039, 0xe6db99e5, 0x1fa27cf8, 0xc4ac5665,
     0xf4292244, 0x432aff97, 0xab9423a7, 0xfc93a039, 0x655b59c3, 0x8f0ccc92, 0xffeff47d, 0x85845dd1,
     0x6fa87e4f, 0xfe2ce6e0, 0xa3014314, 0x4e0811a1, 0xf7537e82, 0xbd3af235, 0x2ad7d2bb, 0xeb86d391]"

definition md5_s :: "nat list" where
  "md5_s =
    [7, 12, 17, 22, 7, 12, 17, 22, 7, 12, 17, 22, 7, 12, 17, 22,
     5, 9, 14, 20, 5, 9, 14, 20, 5, 9, 14, 20, 5, 9, 14, 20,
     4, 11, 16, 23, 4, 11, 16, 23, 4, 11, 16, 23, 4, 11, 16, 23,
     6, 10, 15, 21, 6, 10, 15, 21, 6, 10, 15, 21, 6, 10, 15, 21]"

definition length_le_bytes :: "64 word \<Rightarrow> byte list" where
  "length_le_bytes w = map (\<lambda>i. ucast (drop_bit (8 * i) w)) [0..<8]"

definition md5_pad :: "byte list \<Rightarrow> byte list" where
  "md5_pad m =
     m @ [0x80] @ replicate ((119 - length m mod 64) mod 64) 0 @ length_le_bytes (word_of_nat (8 * length m))"

fun le_words :: "byte list \<Rightarrow> u32 list" where
  "le_words (b0 # b1 # b2 # b3 # bs) =
     (ucast b0 OR push_bit 8 (ucast b1) OR push_bit 16 (ucast b2) OR push_bit 24 (ucast b3))
       # le_words bs"
| "le_words _ = []"

definition rotl32 :: "nat \<Rightarrow> u32 \<Rightarrow> u32" where
  "rotl32 n x = push_bit n x OR drop_bit (32 - n) x"

definition md5_step :: "u32 list \<Rightarrow> u32 \<times> u32 \<times> u32 \<times> u32 \<Rightarrow> nat \<Rightarrow> u32 \<times> u32 \<times> u32 \<times> u32" where
  "md5_step M st i =
     (case st of (a, b, c, d) \<Rightarrow>
        let f = (if i < 16 then (b AND c) OR (NOT b AND d)
                 else if i < 32 then (d AND b) OR (NOT d AND c)
                 else if i < 48 then b XOR c XOR d
                 else c XOR (b OR NOT d));
            g = (if i < 16 then i
                 else if i < 32 then (5 * i + 1) mod 16
                 else if i < 48 then (3 * i + 5) mod 16
                 else (7 * i) mod 16);
            x = f + a + md5_K ! i + M ! g
        in (d, b + rotl32 (md5_s ! i) x, b, c))"

definition md5_block :: "u32 \<times> u32 \<times> u32 \<times> u32 \<Rightarrow> u32 list \<Rightarrow> u32 \<times> u32 \<times> u32 \<times> u32" where
  "md5_block h M =
     (case h of (a0, b0, c0, d0) \<Rightarrow>
        case foldl (md5_step M) h [0..<64] of (a, b, c, d) \<Rightarrow>
          (a0 + a, b0 + b, c0 + c, d0 + d))"

fun md5_blocks :: "u32 \<times> u32 \<times> u32 \<times> u32 \<Rightarrow> u32 list \<Rightarrow> u32 \<times> u32 \<times> u32 \<times> u32" where
  "md5_blocks h ws = (if length ws < 16 then h else md5_blocks (md5_block h (take 16 ws)) (drop 16 ws))"

declare md5_blocks.simps [simp del]

definition word_le_bytes :: "u32 \<Rightarrow> byte list" where
  "word_le_bytes w = [ucast w, ucast (drop_bit 8 w), ucast (drop_bit 16 w), ucast (drop_bit 24 w)]"

definition md5 :: "string \<Rightarrow> byte list" where
  "md5 input =
     (case md5_blocks (0x67452301, 0xefcdab89, 0x98badcfe, 0x10325476)
             (le_words (md5_pad (map (\<lambda>c. word_of_nat (of_char c)) input))) of
        (a, b, c, d) \<Rightarrow> word_le_bytes a @ word_le_bytes b @ word_le_bytes c @ word_le_bytes d)"

definition hex_chars :: string where
  "hex_chars = ''0123456789abcdef''"

definition digest_hex :: "byte list \<Rightarrow> string" where
  "digest_hex bs = concat (map (\<lambda>b. [hex_chars ! (unat b div 16), hex_chars ! (unat b mod 16)]) bs)"

section \<open>The token: \<open>hash\<close>\<close>

text \<open>
  \<open>BigInt('0x' + md5)\<close>: the conversion of a string to a big integer, for the one form
  of string the program passes, a hexadecimal literal.  A string that is no such literal
  is a \<open>SyntaxError\<close>.
\<close>

definition hex_digit :: "char \<Rightarrow> nat option" where
  "hex_digit c =
     (let n = (of_char c :: nat)
      in if 48 \<le> n \<and> n \<le> 57 then Some (n - 48)
         else if 97 \<le> n \<and> n \<le> 102 then Some (n - 87)
         else if 65 \<le> n \<and> n \<le> 70 then Some (n - 55)
         else None)"

fun hex_digits_value :: "string \<Rightarrow> int \<Rightarrow> int option" where
  "hex_digits_value [] acc = Some acc"
| "hex_digits_value (c # cs) acc =
     (case hex_digit c of None \<Rightarrow> None | Some d \<Rightarrow> hex_digits_value cs (16 * acc + int d))"

definition BigInt_0x :: "string \<Rightarrow> error + int" where
  "BigInt_0x s =
     (case s of
        c0 # c1 # ds \<Rightarrow>
          if c0 = CHR ''0'' \<and> c1 = CHR ''x'' \<and> ds \<noteq> []
          then (case hex_digits_value ds 0 of None \<Rightarrow> Inl SyntaxError | Some v \<Rightarrow> Inr v)
          else Inl SyntaxError
      | _ \<Rightarrow> Inl SyntaxError)"

definition alphabet :: string where
  "alphabet = ''abcdefghijklmnopqrstuvwxyzABCDEFGHIJKLMNOPQRSTUVWXYZ0123456789''"

text \<open>
  The \<open>while (bigint > 0n)\<close> loop of \<open>hash\<close>; \<open>result\<close> is the array the characters are
  pushed to.  On non-negative big integers \<open>%\<close> and \<open>/\<close> are \<open>mod\<close> and \<open>div\<close>.
\<close>

function hash_loop :: "int \<Rightarrow> string \<Rightarrow> string" where
  "hash_loop bigint result =
     (if bigint > 0
      then hash_loop (bigint div int (length alphabet))
             (result @ [alphabet ! nat (bigint mod int (length alphabet))])
      else result)"
  by pat_completeness auto
termination
  by (relation "measure (\<lambda>(bigint, result). nat bigint)") (auto simp: alphabet_def)

declare hash_loop.simps [simp del]

text \<open>
  \<open>hash\<close> is declared on strings; the reconstructor passes it whatever the delta holds,
  and the digest function of the library raises a \<open>TypeError\<close> on anything that is no
  string.
\<close>

fun hash :: "jsval \<Rightarrow> error + string" where
  "hash (JStr input) =
     (case BigInt_0x (''0x'' @ digest_hex (md5 input)) of
        Inl e \<Rightarrow> Inl e
      | Inr bigint \<Rightarrow> Inr (take 8 (hash_loop bigint [])))"
| "hash _ = Inl TypeError"

declare hash.simps [simp del]

subsection \<open>The token as the specification words it\<close>

definition digest_value :: "byte list \<Rightarrow> nat" where
  "digest_value bs = foldl (\<lambda>a b. 256 * a + unat b) 0 bs"

function spec_digits :: "nat \<Rightarrow> string" where
  "spec_digits v = (if v = 0 then [] else alphabet ! (v mod 62) # spec_digits (v div 62))"
  by pat_completeness auto
termination
  by (relation "measure id") auto

declare spec_digits.simps [simp del]

definition spec_token :: "string \<Rightarrow> string" where
  "spec_token s = take 8 (spec_digits (digest_value (md5 s)))"

definition alnum :: "char \<Rightarrow> bool" where
  "alnum c =
     (let n = (of_char c :: nat)
      in (97 \<le> n \<and> n \<le> 122) \<or> (65 \<le> n \<and> n \<le> 90) \<or> (48 \<le> n \<and> n \<le> 57))"


section \<open>Objects\<close>

text \<open>
  An object is the list of its own properties in the order \<open>for \<dots> in\<close> enumerates them:
  the keys that are array indices in ascending order, then the other keys in the order of
  their creation.  The store is a list of objects, the address of an object is its
  position, and \<open>{}\<close> allocates at the end.  Objects here are the plain data objects of a
  decoded document, all with the prototype \<open>Object.prototype\<close>; the store holds their own
  properties only.
\<close>

type_synonym jsobj = "(string \<times> jsval) list"
type_synonym heap = "jsobj list"

definition digit_char :: "char \<Rightarrow> bool" where
  "digit_char c \<longleftrightarrow> 48 \<le> (of_char c :: nat) \<and> (of_char c :: nat) \<le> 57"

definition decimal_value :: "string \<Rightarrow> nat" where
  "decimal_value k = foldl (\<lambda>a c. 10 * a + ((of_char c :: nat) - 48)) 0 k"

definition is_array_index :: "string \<Rightarrow> bool" where
  "is_array_index k \<longleftrightarrow>
     k \<noteq> [] \<and> list_all digit_char k \<and> (hd k \<noteq> CHR ''0'' \<or> length k = 1)
     \<and> decimal_value k < 2 ^ 32 - 1"

fun show_nat :: "nat \<Rightarrow> string" where
  "show_nat n =
     (if n < 10 then [char_of (48 + n)] else show_nat (n div 10) @ [char_of (48 + n mod 10)])"

declare show_nat.simps [simp del]

fun insert_index :: "string \<Rightarrow> jsval \<Rightarrow> jsobj \<Rightarrow> jsobj" where
  "insert_index k v [] = [(k, v)]"
| "insert_index k v (p # ps) =
     (if is_array_index (fst p) \<and> decimal_value (fst p) < decimal_value k
      then p # insert_index k v ps
      else (k, v) # p # ps)"

definition get_prop :: "jsobj \<Rightarrow> string \<Rightarrow> jsval" where
  "get_prop obj k = (case map_of obj k of None \<Rightarrow> JUndefined | Some v \<Rightarrow> v)"

definition set_prop :: "jsobj \<Rightarrow> string \<Rightarrow> jsval \<Rightarrow> jsobj" where
  "set_prop obj k v =
     (if k \<in> set (map fst obj) then AList.update k v obj
      else if is_array_index k then insert_index k v obj
      else obj @ [(k, v)])"

definition obj_at :: "heap \<Rightarrow> addr \<Rightarrow> jsobj" where
  "obj_at h a = (if a < length h then h ! a else [])"

definition get_field :: "heap \<Rightarrow> addr \<Rightarrow> string \<Rightarrow> jsval" where
  "get_field h a k = get_prop (obj_at h a) k"

definition set_field :: "heap \<Rightarrow> addr \<Rightarrow> string \<Rightarrow> jsval \<Rightarrow> heap" where
  "set_field h a k v = h[a := set_prop (obj_at h a) k v]"

text \<open>\<open>if (v)\<close>: the values that count as false are \<open>undefined\<close>, \<open>null\<close>, \<open>false\<close>, \<open>0\<close> and
  the empty string.  Numbers are represented by the integers among them.\<close>

fun truthy :: "jsval \<Rightarrow> bool" where
  "truthy JUndefined = False"
| "truthy JNull = False"
| "truthy (JBool b) = b"
| "truthy (JNum n) = (n \<noteq> 0)"
| "truthy (JStr s) = (s \<noteq> [])"
| "truthy (JObj a) = True"

text \<open>
  The index properties of a string are its UTF-16 code units.  \<open>code_units s\<close> lists them
  for the UTF-8 bytes \<open>s\<close>, each as the bytes of the one-unit string \<open>s[i]\<close>: a character of
  up to three bytes is one unit, a character of four bytes is two units, the halves of its
  surrogate pair, each written in the three-byte form of its code point.
\<close>

definition unit_bytes :: "nat \<Rightarrow> string" where
  "unit_bytes x =
     [char_of (224 + x div 4096), char_of (128 + (x div 64) mod 64), char_of (128 + x mod 64)]"

fun surrogates :: "string \<Rightarrow> string list" where
  "surrogates [b0, b1, b2, b3] =
     (let cp = ((of_char b0 :: nat) mod 8) * 262144 + ((of_char b1 :: nat) mod 64) * 4096
               + ((of_char b2 :: nat) mod 64) * 64 + (of_char b3 :: nat) mod 64;
          c = cp - 65536
      in [unit_bytes (55296 + c div 1024), unit_bytes (56320 + c mod 1024)])"
| "surrogates bs = [bs]"

fun code_units :: "string \<Rightarrow> string list" where
  "code_units [] = []"
| "code_units (b0 # bs) =
     (if (of_char b0 :: nat) < 192 then [b0] # code_units bs
      else if (of_char b0 :: nat) < 224 then (b0 # take 1 bs) # code_units (drop 1 bs)
      else if (of_char b0 :: nat) < 240 then (b0 # take 2 bs) # code_units (drop 2 bs)
      else surrogates (b0 # take 3 bs) @ code_units (drop 3 bs))"

declare code_units.simps [simp del]

text \<open>
  \<open>v[k]\<close> and the keys \<open>for (k in v)\<close> visits, for a value \<open>v\<close> that is no object as well.
  A string has its index properties; the program asks a string for no other property it
  has.  The program reads \<open>v[k]\<close> only where \<open>v\<close> has passed \<open>if (v)\<close>.
\<close>

definition member :: "heap \<Rightarrow> jsval \<Rightarrow> string \<Rightarrow> jsval" where
  "member h v k =
     (case v of
        JObj a \<Rightarrow> get_prop (obj_at h a) k
      | JStr s \<Rightarrow>
          if is_array_index k \<and> decimal_value k < length (code_units s)
          then JStr (code_units s ! decimal_value k)
          else JUndefined
      | _ \<Rightarrow> JUndefined)"

definition enumerate_keys :: "heap \<Rightarrow> jsval \<Rightarrow> string list" where
  "enumerate_keys h v =
     (case v of
        JObj a \<Rightarrow> map fst (obj_at h a)
      | JStr s \<Rightarrow> map show_nat [0..<length (code_units s)]
      | _ \<Rightarrow> [])"

text \<open>
  \<open>obj[k] = w\<close> with a computed key.  The key \<open>__proto__\<close>, unless the object has it as an
  own property, is the setter of \<open>Object.prototype\<close>: the assignment creates no property.
  (Given an object, the setter makes it the prototype; the store has no prototypes, and the
  deltas of the theorems below hold no object under \<open>__proto__\<close>.)
\<close>

definition assign_field :: "heap \<Rightarrow> addr \<Rightarrow> string \<Rightarrow> jsval \<Rightarrow> heap" where
  "assign_field h a k w =
     (if k = ''__proto__'' \<and> k \<notin> set (map fst (obj_at h a)) then h else set_field h a k w)"

text \<open>
  \<open>v[k] = w\<close> in strict mode, for any value \<open>v\<close>.  On \<open>undefined\<close> and \<open>null\<close> it is a
  \<open>TypeError\<close>; on another value that is no object it is a \<open>TypeError\<close> too, except for the
  key \<open>__proto__\<close>, whose setter returns without doing anything.
\<close>

definition set_member :: "heap \<Rightarrow> jsval \<Rightarrow> string \<Rightarrow> jsval \<Rightarrow> error + heap" where
  "set_member h v k w =
     (case v of
        JObj a \<Rightarrow> Inr (assign_field h a k w)
      | JUndefined \<Rightarrow> Inl TypeError
      | JNull \<Rightarrow> Inl TypeError
      | _ \<Rightarrow> if k = ''__proto__'' then Inr h else Inl TypeError)"

definition bind_err :: "error + 'a \<Rightarrow> ('a \<Rightarrow> error + 'b) \<Rightarrow> error + 'b" where
  "bind_err r f = (case r of Inl e \<Rightarrow> Inl e | Inr x \<Rightarrow> f x)"

section \<open>The anonymizer: \<open>anonymizeCustomer\<close>\<close>

text \<open>\<open>s.split(c)\<close> for a one-character separator: \<open>cur\<close> is the piece being read.\<close>

fun split_from :: "char \<Rightarrow> string \<Rightarrow> string \<Rightarrow> string list" where
  "split_from c cur [] = [cur]"
| "split_from c cur (x # xs) =
     (if x = c then cur # split_from c [] xs else split_from c (cur @ [x]) xs)"

definition split_at :: "char \<Rightarrow> string \<Rightarrow> string list" where
  "split_at c s = split_from c [] s"

text \<open>An element of the array \<open>split\<close> returns, \<open>undefined\<close> (\<open>None\<close>) beyond its end, and
  its text in a template literal.\<close>

definition part :: "string list \<Rightarrow> nat \<Rightarrow> string option" where
  "part ps i = (if i < length ps then Some (ps ! i) else None)"

definition template_text :: "string option \<Rightarrow> string" where
  "template_text p = (case p of None \<Rightarrow> ''undefined'' | Some s \<Rightarrow> s)"

text \<open>The first three \<open>if\<close> blocks: each writes a property of the fresh object \<open>anonymous\<close>.\<close>

definition anonymize_name :: "addr \<Rightarrow> addr \<Rightarrow> string \<Rightarrow> heap \<Rightarrow> error + heap" where
  "anonymize_name customer anonymous k h =
     (if truthy (get_field h customer k)
      then bind_err (hash (get_field h customer k))
             (\<lambda>t. Inr (set_field h anonymous k (JStr t)))
      else Inr h)"

definition anonymize_email :: "addr \<Rightarrow> addr \<Rightarrow> heap \<Rightarrow> error + heap" where
  "anonymize_email customer anonymous h =
     (if truthy (get_field h customer ''email'')
      then (case get_field h customer ''email'' of
              JStr email \<Rightarrow>
                (let parts = split_at CHR ''@'' email;
                     emailPart1 = part parts 0;
                     emailPart2 = part parts 1
                 in bind_err (hash (case emailPart1 of None \<Rightarrow> JUndefined | Some s \<Rightarrow> JStr s))
                      (\<lambda>t. Inr (set_field h anonymous ''email''
                                   (JStr (t @ ''@'' @ template_text emailPart2)))))
            | _ \<Rightarrow> Inl TypeError)
      else Inr h)"

text \<open>The loop over \<open>line1\<close>, \<open>line2\<close>, \<open>postcode\<close>.  \<open>anonymous.address\<close> is the object
  \<open>customer.address\<close> itself, so the assignment writes into the argument's address.\<close>

fun anonymize_keys :: "addr \<Rightarrow> addr \<Rightarrow> string list \<Rightarrow> heap \<Rightarrow> error + heap" where
  "anonymize_keys customer anonymous [] h = Inr h"
| "anonymize_keys customer anonymous (key # keys) h =
     (if truthy (member h (get_field h customer ''address'') key)
      then bind_err (hash (member h (get_field h customer ''address'') key))
             (\<lambda>t. bind_err (set_member h (get_field h anonymous ''address'') key (JStr t))
                     (anonymize_keys customer anonymous keys))
      else anonymize_keys customer anonymous keys h)"

definition anonymize_address :: "addr \<Rightarrow> addr \<Rightarrow> heap \<Rightarrow> error + heap" where
  "anonymize_address customer anonymous h =
     (if truthy (get_field h customer ''address'')
      then anonymize_keys customer anonymous [''line1'', ''line2'', ''postcode'']
             (set_field h anonymous ''address'' (get_field h customer ''address''))
      else Inr h)"

definition anonymizeCustomer :: "heap \<Rightarrow> addr \<Rightarrow> error + (heap \<times> addr)" where
  "anonymizeCustomer h customer =
     (let anonymous = length h
      in bind_err (anonymize_name customer anonymous ''firstName'' (h @ [[]]))
           (\<lambda>h1. bind_err (anonymize_name customer anonymous ''lastName'' h1)
           (\<lambda>h2. bind_err (anonymize_email customer anonymous h2)
           (\<lambda>h3. bind_err (anonymize_address customer anonymous h3)
           (\<lambda>h4. Inr (h4, anonymous))))))"

section \<open>The update reconstructor: \<open>createUpdate\<close>\<close>

definition startsWith :: "string \<Rightarrow> string \<Rightarrow> bool" where
  "startsWith key p \<longleftrightarrow> take (length p) key = p"

fun convert_nested :: "addr \<Rightarrow> addr \<Rightarrow> string \<Rightarrow> string list \<Rightarrow> heap \<Rightarrow> heap" where
  "convert_nested customer update key [] h = h"
| "convert_nested customer update key (nestedKey # nestedKeys) h =
     convert_nested customer update key nestedKeys
       (assign_field h update (key @ ''.'' @ nestedKey)
          (member h (get_field h customer key) nestedKey))"

fun convert_keys :: "addr \<Rightarrow> addr \<Rightarrow> string list \<Rightarrow> heap \<Rightarrow> heap" where
  "convert_keys customer update [] h = h"
| "convert_keys customer update (key # keys) h =
     convert_keys customer update keys
       (if key = ''address''
        then convert_nested customer update key
               (enumerate_keys h (get_field h customer key)) h
        else assign_field h update key (get_field h customer key))"

definition convertCustomerUpdateToDotNotation :: "heap \<Rightarrow> addr \<Rightarrow> heap \<times> addr" where
  "convertCustomerUpdateToDotNotation h customer =
     (let update = length h
      in (convert_keys customer update (map fst (obj_at h customer)) (h @ [[]]), update))"

text \<open>
  Stage 1 of \<open>createUpdate\<close>, the loop over the keys of \<open>updatedFields\<close>: its body for one
  key, and the loop.  The state is the flag \<open>rewriteFullAddress\<close> and the store.
\<close>

definition createUpdate_body :: "addr \<Rightarrow> addr \<Rightarrow> string \<Rightarrow> bool \<times> heap \<Rightarrow> error + (bool \<times> heap)" where
  "createUpdate_body updatedFields customer key st =
     (case st of (rewriteFullAddress, h) \<Rightarrow>
        if startsWith key ''address.''
        then (let parts = split_at CHR ''.'' key;
                  key1 = (case part parts 0 of None \<Rightarrow> ''undefined'' | Some s \<Rightarrow> s);
                  key2 = (case part parts 1 of None \<Rightarrow> ''undefined'' | Some s \<Rightarrow> s);
                  h1 = (if \<not> truthy (get_field h customer key1)
                        then assign_field (h @ [[]]) customer key1 (JObj (length h))
                        else h)
              in bind_err
                   (set_member h1 (get_field h1 customer key1) key2 (get_field h1 updatedFields key))
                   (\<lambda>h2. Inr (rewriteFullAddress, h2)))
        else if key = ''address''
        then Inr (True, assign_field h customer key (get_field h updatedFields key))
        else Inr (rewriteFullAddress, assign_field h customer key (get_field h updatedFields key)))"

fun createUpdate_loop :: "addr \<Rightarrow> addr \<Rightarrow> string list \<Rightarrow> bool \<times> heap \<Rightarrow> error + (bool \<times> heap)" where
  "createUpdate_loop updatedFields customer [] st = Inr st"
| "createUpdate_loop updatedFields customer (key # keys) st =
     bind_err (createUpdate_body updatedFields customer key st)
       (createUpdate_loop updatedFields customer keys)"

definition createUpdate :: "heap \<Rightarrow> addr \<Rightarrow> error + (heap \<times> addr)" where
  "createUpdate h updatedFields =
     (let customer = length h
      in bind_err
           (createUpdate_loop updatedFields customer (map fst (obj_at h updatedFields))
              (False, h @ [[]]))
           (\<lambda>(rewriteFullAddress, h1).
              bind_err (anonymizeCustomer h1 customer)
                (\<lambda>(h2, anonym).
                   if rewriteFullAddress then Inr (h2, anonym)
                   else Inr (convertCustomerUpdateToDotNotation h2 anonym))))"

section \<open>Sync mode: the queue, the flush and the timer\<close>

text \<open>
  \<open>syncMode\<close> is a set of callbacks over the variables \<open>updates\<close> and \<open>timerId\<close>, run one
  at a time by the event loop.  The state below holds these variables and what the
  callbacks leave in the world: the calls of \<open>bulkWrite\<close>, the tokens passed to
  \<open>saveResumeToken\<close>, the console, the pending timeouts, and the calls of
  \<open>bulkWriteUpdates\<close> that are suspended at one of their two \<open>await\<close>s.  An \<open>action\<close> is
  what the event loop delivers: a change event, a timeout, or the settling of a promise.
\<close>

definition MAX_BATCH_SIZE :: nat where
  "MAX_BATCH_SIZE = 1000"

definition UPDATES_INTERVAL :: int where
  "UPDATES_INTERVAL = 1000"

record pending =
  target_id :: jsval
  update :: addr
  resumeToken :: jsval

record operation =
  filter_id :: jsval
  set_fields :: addr
  upsert :: bool

datatype entry =
    UpdatedFieldsNotProvided
  | BulkWriteFailed
  | WroteDocs nat
  | ResumeTokenWriteFailed

datatype origin = FromTimer int | FromBatch

record flight =
  flight_id :: nat
  lastResumeToken :: jsval
  op_count :: nat
  saving :: bool
  origin :: origin

record sync =
  store :: heap
  updates :: "pending list"
  timerId :: nat
  timers :: "(nat \<times> int) list"
  next_id :: nat
  flights :: "flight list"
  bulkWrites :: "operation list list"
  saves :: "jsval list"
  token_file :: "jsval option"
  console :: "entry list"

datatype change =
    InsertChange addr
  | UpdateChange jsval "addr option" "string list"
  | OtherChange

datatype action =
    Change change jsval
  | TimerFired nat int
  | BulkWriteSettled nat bool
  | SaveSettled nat bool int

text \<open>\<open>repeat(interval)\<close> followed by the assignment to \<open>timerId\<close>.\<close>

definition repeat :: "int \<Rightarrow> sync \<Rightarrow> sync" where
  "repeat interval st =
     st\<lparr>timerId := next_id st, timers := timers st @ [(next_id st, interval)],
        next_id := Suc (next_id st)\<rparr>"

definition clearTimeout :: "nat \<Rightarrow> sync \<Rightarrow> sync" where
  "clearTimeout t st = st\<lparr>timers := filter (\<lambda>(i, d). i \<noteq> t) (timers st)\<rparr>"

text \<open>The \<open>finally\<close> callback of a call of \<open>bulkWriteUpdates\<close>, by where the call was made.\<close>

definition on_finally :: "origin \<Rightarrow> int \<Rightarrow> sync \<Rightarrow> sync" where
  "on_finally org end_time st =
     (case org of
        FromTimer start \<Rightarrow>
          (let interval = UPDATES_INTERVAL - (end_time - start)
           in repeat (if interval < 0 then 0 else interval) st)
      | FromBatch \<Rightarrow> repeat UPDATES_INTERVAL st)"

text \<open>
  \<open>bulkWriteUpdates\<close> up to its first \<open>await\<close>.  With an empty queue it returns at once and
  its \<open>finally\<close> callback runs; \<open>now\<close> is the clock then.
\<close>

definition bulkWriteUpdates :: "origin \<Rightarrow> int \<Rightarrow> sync \<Rightarrow> sync" where
  "bulkWriteUpdates org now st =
     (if updates st = [] then on_finally org now st
      else
        (let updatesToWrite = updates st;
             lastResumeToken = resumeToken (last (updates st));
             operations = map (\<lambda>u. \<lparr>filter_id = target_id u, set_fields = update u, upsert = True\<rparr>)
                            updatesToWrite
         in st\<lparr>updates := [],
               bulkWrites := bulkWrites st @ [operations],
               flights := flights st @
                 [\<lparr>flight_id = next_id st, lastResumeToken = lastResumeToken,
                   op_count = length operations, saving = False, origin = org\<rparr>],
               next_id := Suc (next_id st)\<rparr>))"

text \<open>The \<open>then\<close> and \<open>catch\<close> of the bulk write, and the call of \<open>saveResumeToken\<close>.\<close>

definition bulkWrite_settled :: "nat \<Rightarrow> bool \<Rightarrow> sync \<Rightarrow> sync" where
  "bulkWrite_settled i ok st =
     (case filter (\<lambda>f. flight_id f = i \<and> \<not> saving f) (flights st) of
        [] \<Rightarrow> st
      | f # _ \<Rightarrow>
          st\<lparr>console := console st @ [if ok then WroteDocs (op_count f) else BulkWriteFailed],
             saves := saves st @ [lastResumeToken f],
             flights := map (\<lambda>g. if flight_id g = i then g\<lparr>saving := True\<rparr> else g) (flights st)\<rparr>)"

text \<open>The write of the token file settles; \<open>saveResumeToken\<close> logs a failure and resolves.\<close>

definition save_settled :: "nat \<Rightarrow> bool \<Rightarrow> int \<Rightarrow> sync \<Rightarrow> sync" where
  "save_settled i ok now st =
     (case filter (\<lambda>f. flight_id f = i \<and> saving f) (flights st) of
        [] \<Rightarrow> st
      | f # _ \<Rightarrow>
          on_finally (origin f) now
            (st\<lparr>token_file := (if ok then Some (lastResumeToken f) else token_file st),
                console := console st @ (if ok then [] else [ResumeTokenWriteFailed]),
                flights := filter (\<lambda>g. flight_id g \<noteq> i) (flights st)\<rparr>))"

definition timer_fired :: "nat \<Rightarrow> int \<Rightarrow> sync \<Rightarrow> sync" where
  "timer_fired t now st =
     (if t \<in> set (map fst (timers st))
      then bulkWriteUpdates (FromTimer now) now (clearTimeout t st)
      else st)"

text \<open>The end of the \<open>change\<close> handler: the check of the queue length.\<close>

definition flush_if_full :: "int \<Rightarrow> sync \<Rightarrow> sync" where
  "flush_if_full now st =
     (if length (updates st) \<ge> MAX_BATCH_SIZE
      then bulkWriteUpdates FromBatch now (clearTimeout (timerId st) st)
      else st)"

definition push_update :: "jsval \<Rightarrow> addr \<Rightarrow> jsval \<Rightarrow> sync \<Rightarrow> sync" where
  "push_update i u t st =
     st\<lparr>updates := updates st @ [\<lparr>target_id = i, update = u, resumeToken = t\<rparr>]\<rparr>"

text \<open>
  The \<open>change\<close> handler.  \<open>t\<close> is \<open>changeStream.resumeToken\<close> when the handler runs.  An
  exception of \<open>anonymizeCustomer\<close> or \<open>createUpdate\<close> leaves the handler (\<open>Inl\<close>).
\<close>

definition on_change :: "change \<Rightarrow> jsval \<Rightarrow> sync \<Rightarrow> error + sync" where
  "on_change ch t st =
     (case ch of
        InsertChange fullDocument \<Rightarrow>
          bind_err (anonymizeCustomer (store st) fullDocument)
            (\<lambda>(h, anonym).
               Inr (flush_if_full 0
                      (push_update (get_field (store st) fullDocument ''_id'') anonym t
                         (st\<lparr>store := h\<rparr>))))
      | UpdateChange i updatedFields removedFields \<Rightarrow>
          (case updatedFields of
             None \<Rightarrow> Inr (st\<lparr>console := console st @ [UpdatedFieldsNotProvided]\<rparr>)
           | Some d \<Rightarrow>
               bind_err (createUpdate (store st) d)
                 (\<lambda>(h, u). Inr (flush_if_full 0 (push_update i u t (st\<lparr>store := h\<rparr>)))))
      | OtherChange \<Rightarrow> Inr (flush_if_full 0 st))"

definition step :: "action \<Rightarrow> sync \<Rightarrow> error + sync" where
  "step a st =
     (case a of
        Change ch t \<Rightarrow> on_change ch t st
      | TimerFired t now \<Rightarrow> Inr (timer_fired t now st)
      | BulkWriteSettled i ok \<Rightarrow> Inr (bulkWrite_settled i ok st)
      | SaveSettled i ok now \<Rightarrow> Inr (save_settled i ok now st))"

fun run :: "action list \<Rightarrow> sync \<Rightarrow> error + sync" where
  "run [] st = Inr st"
| "run (a # as) st = bind_err (step a st) (run as)"

text \<open>\<open>syncMode\<close> after its set-up: an empty queue and the first timeout pending.\<close>

definition syncMode :: "heap \<Rightarrow> jsval option \<Rightarrow> sync" where
  "syncMode h token =
     repeat UPDATES_INTERVAL
       \<lparr>store = h, updates = [], timerId = 0, timers = [], next_id = 0, flights = [],
        bulkWrites = [], saves = [], token_file = token, console = []\<rparr>"

section \<open>The declared types and the policy, for stating the properties\<close>

text \<open>
  \<open>Partial<Customer>\<close>: each of \<open>firstName\<close>, \<open>lastName\<close>, \<open>email\<close> is absent or a string,
  and \<open>address\<close> is absent or an object whose \<open>line1\<close>, \<open>line2\<close>, \<open>postcode\<close> are absent or
  strings.
\<close>

definition text_or_absent :: "jsval \<Rightarrow> bool" where
  "text_or_absent v = (case v of JUndefined \<Rightarrow> True | JStr s \<Rightarrow> True | _ \<Rightarrow> False)"

definition typed_address :: "heap \<Rightarrow> addr \<Rightarrow> bool" where
  "typed_address h a \<longleftrightarrow>
     a < length h \<and> text_or_absent (get_field h a ''line1'')
     \<and> text_or_absent (get_field h a ''line2'') \<and> text_or_absent (get_field h a ''postcode'')"

definition typed_customer :: "heap \<Rightarrow> addr \<Rightarrow> bool" where
  "typed_customer h c \<longleftrightarrow>
     c < length h \<and> text_or_absent (get_field h c ''firstName'')
     \<and> text_or_absent (get_field h c ''lastName'') \<and> text_or_absent (get_field h c ''email'')
     \<and> (case get_field h c ''address'' of
            JUndefined \<Rightarrow> True | JObj a \<Rightarrow> typed_address h a | _ \<Rightarrow> False)"

text \<open>The policy for one string field: a non-empty string is replaced by its token.\<close>

definition tokenized :: "jsval \<Rightarrow> jsval" where
  "tokenized v = (case v of JStr s \<Rightarrow> if s = [] then v else JStr (spec_token s) | _ \<Rightarrow> v)"





section \<open>Invariants of the sync state, for stating the properties\<close>

text \<open>
  Identifiers are handed out in increasing order, so no suspended call of
  \<open>bulkWriteUpdates\<close> has an identifier that is still to come.  \<open>awaiting_write i tok n\<close>: the
  call \<open>i\<close> is suspended at its bulk write of \<open>n\<close> operations and holds the token \<open>tok\<close>.
\<close>

definition fresh_ids :: "sync \<Rightarrow> bool" where
  "fresh_ids st \<longleftrightarrow> (\<forall>f\<in>set (flights st). flight_id f < next_id st)"

definition awaiting_write :: "nat \<Rightarrow> jsval \<Rightarrow> nat \<Rightarrow> sync \<Rightarrow> bool" where
  "awaiting_write i tok n st \<longleftrightarrow>
     i < next_id st
     \<and> (\<exists>f. filter (\<lambda>f. flight_id f = i) (flights st) = [f]
            \<and> lastResumeToken f = tok \<and> op_count f = n \<and> \<not> saving f)"

section \<open>Properties of the token\<close>

lemma length_alphabet: "length alphabet = 62"
  by (simp add: alphabet_def)

lemma alphabet_alnum: "list_all alnum alphabet"
  by (simp add: alphabet_def alnum_def)

lemma hex_digit_hex_chars: "n < 16 \<Longrightarrow> hex_digit (hex_chars ! n) = Some n"
proof -
  assume "n < 16"
  then have "n \<in> {0,1,2,3,4,5,6,7,8,9,10,11,12,13,14,15}" by simp arith
  then show ?thesis by (auto simp: hex_digit_def hex_chars_def)
qed

lemma hex_digits_value_digest:
  "hex_digits_value (digest_hex bs @ cs) acc =
     hex_digits_value cs (foldl (\<lambda>a b. 256 * a + uint b) acc bs)"
proof (induction bs arbitrary: acc)
  case Nil
  then show ?case by (simp add: digest_hex_def)
next
  case (Cons b bs)
  have d: "unat b div 16 < 16" "unat b mod 16 < 16"
    using unsigned_less [of b, where 'a = nat] by (simp_all add: less_mult_imp_div_less)
  have "digest_hex (b # bs) =
          hex_chars ! (unat b div 16) # hex_chars ! (unat b mod 16) # digest_hex bs"
    by (simp add: digest_hex_def)
  then show ?case
    using Cons.IH d by (simp add: hex_digit_hex_chars algebra_simps zdiv_int zmod_int)
qed

lemma foldl_digest_int:
  "foldl (\<lambda>a b. 256 * a + uint b) (int acc) bs = int (foldl (\<lambda>a b. 256 * a + unat b) acc bs)"
proof (induction bs arbitrary: acc)
  case Nil
  show ?case by simp
next
  case (Cons b bs)
  have "256 * int acc + uint b = int (256 * acc + unat b)" by simp
  then show ?case using Cons.IH [of "256 * acc + unat b"] by simp
qed

text \<open>The hexadecimal digest always parses, to the big-endian value of the digest bytes.\<close>

lemma BigInt_digest:
  "bs \<noteq> [] \<Longrightarrow> BigInt_0x (''0x'' @ digest_hex bs) = Inr (int (digest_value bs))"
proof -
  assume "bs \<noteq> []"
  then have ne: "digest_hex bs \<noteq> []" by (cases bs) (simp_all add: digest_hex_def)
  have "hex_digits_value (digest_hex bs) 0 = Some (int (digest_value bs))"
    using hex_digits_value_digest [of bs "[]" 0] foldl_digest_int [of 0 bs]
    by (simp add: digest_value_def)
  with ne show ?thesis by (simp add: BigInt_0x_def)
qed

lemma hash_not_string: "\<forall>s. v \<noteq> JStr s \<Longrightarrow> hash v = Inl TypeError"
  by (cases v) (simp_all add: hash.simps)

lemma md5_length: "length (md5 s) = 16"
  by (simp add: md5_def word_le_bytes_def split: prod.splits)

lemma hash_loop_spec: "0 \<le> v \<Longrightarrow> hash_loop v acc = acc @ spec_digits (nat v)"
proof (induction v acc rule: hash_loop.induct)
  case (1 bigint result)
  show ?case
  proof (cases "bigint > 0")
    case True
    then have "hash_loop bigint result =
        hash_loop (bigint div 62) (result @ [alphabet ! nat (bigint mod 62)])"
      by (subst hash_loop.simps) (simp add: length_alphabet)
    also have "\<dots> = (result @ [alphabet ! nat (bigint mod 62)]) @ spec_digits (nat (bigint div 62))"
      using "1.IH" True by (simp add: length_alphabet)
    also have "\<dots> = result @ spec_digits (nat bigint)"
      using True by (subst (2) spec_digits.simps) (simp add: nat_div_distrib nat_mod_distrib)
    finally show ?thesis .
  next
    case False
    with "1.prems" have "bigint = 0" by simp
    then show ?thesis by (simp add: hash_loop.simps spec_digits.simps)
  qed
qed

lemma spec_digits_alnum: "list_all alnum (spec_digits v)"
proof (induction v rule: spec_digits.induct)
  case (1 v)
  show ?case
  proof (cases "v = 0")
    case True
    then show ?thesis by (simp add: spec_digits.simps)
  next
    case False
    have "v mod 62 < length alphabet" by (simp add: length_alphabet)
    then have "alnum (alphabet ! (v mod 62))"
      using alphabet_alnum by (simp add: list_all_length)
    with False "1.IH" show ?thesis by (subst spec_digits.simps) simp
  qed
qed

lemma length_spec_digits: "length (spec_digits v) \<le> n \<longleftrightarrow> v < 62 ^ n"
proof (induction v arbitrary: n rule: spec_digits.induct)
  case (1 v)
  show ?case
  proof (cases "v = 0")
    case True
    then show ?thesis by (simp add: spec_digits.simps)
  next
    case False
    then have len: "length (spec_digits v) = Suc (length (spec_digits (v div 62)))"
      by (subst spec_digits.simps) simp
    show ?thesis
    proof (cases n)
      case 0
      with False len show ?thesis by simp
    next
      case (Suc m)
      have "v div 62 < 62 ^ m \<longleftrightarrow> v < 62 ^ Suc m"
        by (simp add: less_mult_imp_div_less div_less_iff_less_mult mult.commute)
      with "1.IH" [OF False, of m] len Suc show ?thesis by simp
    qed
  qed
qed

lemma hash_JStr: "hash (JStr s) = Inr (spec_token s)"
proof -
  have "md5 s \<noteq> []" using md5_length [of s] by auto
  then have "BigInt_0x (''0x'' @ digest_hex (md5 s)) = Inr (int (digest_value (md5 s)))"
    by (rule BigInt_digest)
  then show ?thesis
    by (simp only: hash.simps sum.case hash_loop_spec [OF of_nat_0_le_iff] nat_int
        append_Nil spec_token_def)
qed

lemma spec_token_alnum: "list_all alnum (spec_token s)"
  using spec_digits_alnum [of "digest_value (md5 s)"]
  by (auto simp: spec_token_def list_all_iff dest: in_set_takeD)

subsection \<open>One token computed: the digest of \<open>Jane\<close> is \<open>2b95993380f8be6bd4bd46bf44f98db9\<close>\<close>

lemma upt_0_64: "[0..<64] = 0 # 1 # [2..<64]"
  by (simp add: upt_conv_Cons)

lemma replicate_numeral: "replicate (numeral k) x = x # replicate (pred_numeral k) x"
  by (simp add: numeral_eq_Suc)

lemma md5_blocks_one: "length ws = 16 \<Longrightarrow> md5_blocks h ws = md5_block h ws"
  by (simp add: md5_blocks.simps [of h ws] md5_blocks.simps [of _ "[]"])

lemma words_Jane:
  "le_words (md5_pad [74, 97, 110, 101]) = [1701732682, 128, 0, 0, 0, 0, 0, 0, 0, 0, 0, 0, 0, 0, 32, 0]"
proof -
  have l: "length_le_bytes 32 = [32, 0, 0, 0, 0, 0, 0, 0]"
    by (simp add: length_le_bytes_def upt_conv_Cons)
  show ?thesis
    by (simp add: md5_pad_def l replicate_numeral)
qed

lemma md5_Jane:
  "md5 ''Jane'' = [43, 149, 153, 51, 128, 248, 190, 107, 212, 189, 70, 191, 68, 249, 141, 185]"
  by (simp add: md5_def words_Jane md5_blocks_one md5_block_def upt_0_64 md5_step_def md5_K_def
      md5_s_def rotl32_def word_le_bytes_def)

lemma hash_Jane: "hash (JStr ''Jane'') = Inr ''VFUiDi7U''"
  by (simp add: hash.simps md5_Jane digest_hex_def hex_chars_def BigInt_0x_def hex_digit_def
      hash_loop.simps alphabet_def)

text \<open>
  C1.  For every input string, \<open>hash\<close> returns the token the specification describes: the
  MD5 digest of the UTF-8 bytes, read as an unsigned big-endian integer, written in base 62
  over the alphabet \<open>a-z\<close>, \<open>A-Z\<close>, \<open>0-9\<close> least significant digit first, and cut to its
  first 8 characters.  The token depends on the input only, each of its characters is a
  letter or a digit, it has at most 8 characters, and it has fewer than 8 exactly when the
  digit sequence has, that is when the digest value is below \<open>62 ^ 7\<close>.
\<close>

theorem hash_token:
  "hash (JStr s) = Inr (spec_token s)
   \<and> (\<forall>t. t = s \<longrightarrow> hash (JStr t) = hash (JStr s))
   \<and> list_all alnum (spec_token s)
   \<and> length (md5 s) = 16
   \<and> length (spec_token s) = min 8 (length (spec_digits (digest_value (md5 s))))
   \<and> (length (spec_token s) < 8 \<longleftrightarrow> length (spec_digits (digest_value (md5 s))) < 8)
   \<and> (length (spec_token s) < 8 \<longleftrightarrow> digest_value (md5 s) < 62 ^ 7)"
proof -
  have len: "length (spec_token s) = min 8 (length (spec_digits (digest_value (md5 s))))"
    by (simp add: spec_token_def min.commute)
  have "length (spec_digits (digest_value (md5 s))) < 8 \<longleftrightarrow> digest_value (md5 s) < 62 ^ 7"
    using length_spec_digits [of "digest_value (md5 s)" 7] by auto
  with len show ?thesis
    by (auto simp: hash_JStr spec_token_alnum md5_length)
qed

theorem hash_token_witness:
  "hash (JStr ''Jane'') = Inr ''VFUiDi7U''
   \<and> spec_token ''Jane'' = ''VFUiDi7U''
   \<and> list_all alnum ''VFUiDi7U''
   \<and> \<not> digest_value (md5 ''Jane'') < 62 ^ 7"
proof -
  have t: "spec_token ''Jane'' = ''VFUiDi7U''"
    using hash_token [of "''Jane''"] hash_Jane by simp
  show ?thesis
    using hash_token [of "''Jane''"] hash_Jane unfolding t by simp
qed


section \<open>Objects and the store\<close>

lemma length_set_field [simp]: "length (set_field h a k v) = length h"
  by (simp add: set_field_def)

lemma obj_at_set_field: "obj_at (set_field h a k v) b = (if b = a \<and> a < length h then set_prop (obj_at h a) k v else obj_at h b)"
  by (simp add: set_field_def obj_at_def)

lemma obj_at_append: "obj_at (h @ [x]) b = (if b < length h then obj_at h b else if b = length h then x else [])"
  by (simp add: obj_at_def nth_append)

lemma map_of_insert_index: "map_of (insert_index k v obj) = (map_of obj)(k \<mapsto> v)"
  by (induction obj) (auto simp: fun_eq_iff)

lemma map_of_snoc: "k \<notin> set (map fst obj) \<Longrightarrow> map_of (obj @ [(k, v)]) = (map_of obj)(k \<mapsto> v)"
  by (induction obj) (auto simp: fun_eq_iff simp del: map_of_append)

lemma map_of_set_prop: "map_of (set_prop obj k v) = (map_of obj)(k \<mapsto> v)"
  by (simp add: set_prop_def update_conv' map_of_insert_index map_of_snoc del: map_of_append)

lemma get_prop_set_prop: "get_prop (set_prop obj k v) k' = (if k' = k then v else get_prop obj k')"
  by (simp add: get_prop_def map_of_set_prop)

lemma keys_set_prop: "set (map fst (set_prop obj k v)) = insert k (set (map fst obj))"
  using arg_cong [OF map_of_set_prop [of obj k v], of dom]
  by (simp add: dom_map_of_conv_image_fst)

lemma set_prop_fresh: "\<not> is_array_index k \<Longrightarrow> k \<notin> set (map fst obj) \<Longrightarrow> set_prop obj k v = obj @ [(k, v)]"
  by (simp add: set_prop_def)

lemma set_prop_present: "k \<in> set (map fst obj) \<Longrightarrow> set_prop obj k v = AList.update k v obj"
  by (simp add: set_prop_def)

lemma keys_update_present: "k \<in> set (map fst obj) \<Longrightarrow> map fst (AList.update k v obj) = map fst obj"
  by (induction obj) auto

lemma not_index_letter: "k \<noteq> [] \<Longrightarrow> \<not> digit_char (hd k) \<Longrightarrow> \<not> is_array_index k"
  by (cases k) (auto simp: is_array_index_def)

lemma get_field_set_field: "get_field (set_field h a k v) b k' = (if b = a \<and> a < length h \<and> k' = k then v else get_field h b k')"
  by (simp add: get_field_def obj_at_set_field get_prop_set_prop)

lemma get_field_append: "get_field (h @ [x]) b k = (if b < length h then get_field h b k else if b = length h then get_prop x k else JUndefined)"
  by (simp add: get_field_def obj_at_append get_prop_def)


lemma assign_field_own:
  "k \<in> set (map fst (obj_at h a)) \<Longrightarrow> assign_field h a k w = set_field h a k w"
  by (simp add: assign_field_def)

lemma length_assign_field [simp]: "length (assign_field h a k w) = length h"
  by (simp add: assign_field_def)

section \<open>The anonymizer on a typed record\<close>

lemma hash_text: "text_or_absent v \<Longrightarrow> truthy v \<Longrightarrow> hash v = Inr (case tokenized v of JStr t \<Rightarrow> t | _ \<Rightarrow> [])"
  by (cases v) (simp_all add: text_or_absent_def tokenized_def hash_JStr)

lemma tokenized_text: "text_or_absent v \<Longrightarrow> truthy v \<Longrightarrow> JStr (case tokenized v of JStr t \<Rightarrow> t | _ \<Rightarrow> []) = tokenized v"
  by (cases v) (simp_all add: text_or_absent_def tokenized_def)

lemma tokenized_falsy: "text_or_absent v \<Longrightarrow> \<not> truthy v \<Longrightarrow> tokenized v = v"
  by (cases v) (simp_all add: text_or_absent_def tokenized_def)

lemma anonymize_name_typed:
  "text_or_absent (get_field h c k) \<Longrightarrow>
   anonymize_name c n k h = Inr (if truthy (get_field h c k) then set_field h n k (tokenized (get_field h c k)) else h)"
  by (simp add: anonymize_name_def bind_err_def hash_text tokenized_text)

lemma get_prop_keys: "get_prop obj k \<noteq> JUndefined \<Longrightarrow> k \<in> set (map fst obj)"
  by (force simp: get_prop_def split: option.splits dest!: map_of_SomeD)

lemma keys_set_prop_present: "get_prop obj k \<noteq> JUndefined \<Longrightarrow> map fst (set_prop obj k v) = map fst obj"
  using get_prop_keys [of obj k] by (simp add: set_prop_present keys_update_present del: set_map)

lemma truthy_defined: "truthy v \<Longrightarrow> v \<noteq> JUndefined"
  by auto

lemma anonymize_keys_typed:
  assumes "get_field h c ''address'' = JObj a" "get_field h n ''address'' = JObj a" "a < length h"
    "''address'' \<notin> set keys" "\<forall>k\<in>set keys. text_or_absent (get_field h a k)" "distinct keys"
  shows "\<exists>h'. anonymize_keys c n keys h = Inr h' \<and> length h' = length h
      \<and> (\<forall>b. b \<noteq> a \<longrightarrow> obj_at h' b = obj_at h b)
      \<and> map fst (obj_at h' a) = map fst (obj_at h a)
      \<and> (\<forall>k. get_field h' a k = (if k \<in> set keys then tokenized (get_field h a k) else get_field h a k))"
  using assms
proof (induction keys arbitrary: h)
  case Nil
  then show ?case by simp
next
  case (Cons key keys)
  let ?v = "get_field h a key"
  have tv: "text_or_absent ?v" using Cons.prems by simp
  have m: "member h (JObj a) key = ?v" by (simp add: member_def get_field_def)
  show ?case
  proof (cases "truthy ?v")
    case False
    have "anonymize_keys c n (key # keys) h = anonymize_keys c n keys h"
      using False Cons.prems(1) m by simp
    moreover obtain h' where h': "anonymize_keys c n keys h = Inr h'" "length h' = length h"
      "\<forall>b. b \<noteq> a \<longrightarrow> obj_at h' b = obj_at h b" "map fst (obj_at h' a) = map fst (obj_at h a)"
      "\<forall>k. get_field h' a k = (if k \<in> set keys then tokenized (get_field h a k) else get_field h a k)"
      using Cons.IH [of h] Cons.prems by auto
    ultimately show ?thesis
      using tokenized_falsy [OF tv False] by (intro exI [of _ h']) auto
  next
    case True
    let ?h1 = "set_field h a key (tokenized ?v)"
    have own: "key \<in> set (map fst (obj_at h a))"
      using truthy_defined [OF True] get_prop_keys [of "obj_at h a" key]
      by (simp add: get_field_def)
    have step: "anonymize_keys c n (key # keys) h = anonymize_keys c n keys ?h1"
      using True Cons.prems(1,2) m tv
      by (simp add: bind_err_def hash_text tokenized_text set_member_def
          assign_field_own [OF own])
    have key: "key \<noteq> ''address''" "key \<notin> set keys" using Cons.prems by auto
    have p1: "get_field ?h1 c ''address'' = JObj a" "get_field ?h1 n ''address'' = JObj a"
      using Cons.prems(1,2) key by (simp_all add: get_field_set_field)
    have p2: "\<forall>k\<in>set keys. text_or_absent (get_field ?h1 a k)"
      using Cons.prems(5) key by (auto simp: get_field_set_field)
    obtain h' where h': "anonymize_keys c n keys ?h1 = Inr h'" "length h' = length ?h1"
      "\<forall>b. b \<noteq> a \<longrightarrow> obj_at h' b = obj_at ?h1 b" "map fst (obj_at h' a) = map fst (obj_at ?h1 a)"
      "\<forall>k. get_field h' a k = (if k \<in> set keys then tokenized (get_field ?h1 a k) else get_field ?h1 a k)"
      using Cons.IH [of ?h1] p1 p2 Cons.prems(3,4,6) by auto
    have k1: "map fst (obj_at ?h1 a) = map fst (obj_at h a)"
      using True Cons.prems(3) truthy_defined [OF True]
      by (simp add: obj_at_set_field keys_set_prop_present get_field_def)
    have "\<forall>k. get_field h' a k = (if k \<in> set (key # keys) then tokenized (get_field h a k) else get_field h a k)"
      using h'(5) key Cons.prems(3) by (auto simp: get_field_set_field)
    then show ?thesis
      using step h' k1 by (intro exI [of _ h']) (auto simp: obj_at_set_field)
  qed
qed

lemma split_from_nonempty: "split_from c cur s \<noteq> []"
  by (induction s arbitrary: cur) auto

lemma split_at_nonempty: "split_at c s \<noteq> []"
  by (simp add: split_at_def split_from_nonempty)

lemma part_0: "part (split_at c s) 0 = Some (hd (split_at c s))"
  using split_at_nonempty [of c s] by (cases "split_at c s") (simp_all add: part_def)

lemma anonymize_email_typed:
  "text_or_absent (get_field h c ''email'') \<Longrightarrow>
   anonymize_email c n h =
     Inr (case get_field h c ''email'' of
            JStr s \<Rightarrow> if s = [] then h
                     else set_field h n ''email''
                            (JStr (spec_token (hd (split_at CHR ''@'' s)) @ ''@'' @
                                   template_text (part (split_at CHR ''@'' s) 1)))
          | _ \<Rightarrow> h)"
  by (cases "get_field h c ''email''")
     (simp_all add: text_or_absent_def anonymize_email_def bind_err_def part_0 hash_JStr Let_def)

lemma not_index_names:
  "\<not> is_array_index ''firstName''" "\<not> is_array_index ''lastName''"
  "\<not> is_array_index ''email''" "\<not> is_array_index ''address''"
  by (simp_all add: is_array_index_def digit_char_def)

lemma text_truthy: "text_or_absent v \<Longrightarrow> truthy v \<longleftrightarrow> (\<exists>s. v = JStr s \<and> s \<noteq> [])"
  by (cases v) (simp_all add: text_or_absent_def)

lemma anonymize_names_typed:
  assumes "c < length h" "text_or_absent (get_field h c ''firstName'')"
    "text_or_absent (get_field h c ''lastName'')" "text_or_absent (get_field h c ''email'')"
  shows "\<exists>h3. bind_err (anonymize_name c (length h) ''firstName'' (h @ [[]]))
           (\<lambda>h1. bind_err (anonymize_name c (length h) ''lastName'' h1)
           (\<lambda>h2. bind_err (anonymize_email c (length h) h2) f)) = f h3
     \<and> length h3 = Suc (length h)
     \<and> (\<forall>b<length h. obj_at h3 b = obj_at h b)
     \<and> map fst (obj_at h3 (length h)) =
         filter (\<lambda>k. truthy (get_field h c k)) [''firstName'', ''lastName'', ''email'']
     \<and> get_field h3 (length h) ''firstName'' =
         (if truthy (get_field h c ''firstName'') then tokenized (get_field h c ''firstName'') else JUndefined)
     \<and> get_field h3 (length h) ''lastName'' =
         (if truthy (get_field h c ''lastName'') then tokenized (get_field h c ''lastName'') else JUndefined)
     \<and> (\<forall>s. get_field h c ''email'' = JStr s \<longrightarrow> s \<noteq> [] \<longrightarrow>
          get_field h3 (length h) ''email'' =
            JStr (spec_token (hd (split_at CHR ''@'' s)) @ ''@'' @ template_text (part (split_at CHR ''@'' s) 1)))"
proof -
  let ?n = "length h"
  let ?h0 = "h @ [[]]"
  have g0: "\<And>k. get_field ?h0 c k = get_field h c k"
    using assms(1) by (simp add: get_field_append)
  define h1 where "h1 = (if truthy (get_field h c ''firstName'')
      then set_field ?h0 ?n ''firstName'' (tokenized (get_field h c ''firstName'')) else ?h0)"
  have s1: "anonymize_name c ?n ''firstName'' ?h0 = Inr h1"
    using assms(2) by (simp add: anonymize_name_typed g0 h1_def)
  have g1: "\<And>k. get_field h1 c k = get_field h c k"
    using assms(1) by (simp add: h1_def get_field_set_field g0)
  define h2 where "h2 = (if truthy (get_field h c ''lastName'')
      then set_field h1 ?n ''lastName'' (tokenized (get_field h c ''lastName'')) else h1)"
  have s2: "anonymize_name c ?n ''lastName'' h1 = Inr h2"
    using assms(3) by (simp add: anonymize_name_typed g1 h2_def)
  have g2: "\<And>k. get_field h2 c k = get_field h c k"
    using assms(1) by (simp add: h2_def get_field_set_field g1)
  define h3 where "h3 = (case get_field h c ''email'' of
            JStr s \<Rightarrow> if s = [] then h2
                     else set_field h2 ?n ''email''
                            (JStr (spec_token (hd (split_at CHR ''@'' s)) @ ''@'' @
                                   template_text (part (split_at CHR ''@'' s) 1)))
          | _ \<Rightarrow> h2)"
  have s3: "anonymize_email c ?n h2 = Inr h3"
    using assms(4) by (simp add: anonymize_email_typed g2 h3_def)
  have run: "bind_err (anonymize_name c ?n ''firstName'' ?h0)
           (\<lambda>h1. bind_err (anonymize_name c ?n ''lastName'' h1)
           (\<lambda>h2. bind_err (anonymize_email c ?n h2) f)) = f h3"
    by (simp add: s1 s2 s3 bind_err_def)
  have len: "length h1 = Suc ?n" "length h2 = Suc ?n" "length h3 = Suc ?n"
    by (simp_all add: h1_def h2_def h3_def split: jsval.splits)
  have old: "\<forall>b<?n. obj_at h3 b = obj_at h b"
    by (auto simp: h1_def h2_def h3_def obj_at_set_field obj_at_append split: jsval.splits)
  have o1: "obj_at h1 ?n = (if truthy (get_field h c ''firstName'')
      then [(''firstName'', tokenized (get_field h c ''firstName''))] else [])"
    by (simp add: h1_def obj_at_set_field obj_at_append set_prop_fresh not_index_names)
  have o2: "obj_at h2 ?n = obj_at h1 ?n @ (if truthy (get_field h c ''lastName'')
      then [(''lastName'', tokenized (get_field h c ''lastName''))] else [])"
    using len by (simp add: h2_def obj_at_set_field o1 set_prop_fresh not_index_names)
  have o3: "obj_at h3 ?n = obj_at h2 ?n @ (case get_field h c ''email'' of
            JStr s \<Rightarrow> if s = [] then []
                     else [(''email'', JStr (spec_token (hd (split_at CHR ''@'' s)) @ ''@'' @
                                   template_text (part (split_at CHR ''@'' s) 1)))]
          | _ \<Rightarrow> [])"
    using len by (simp add: h3_def obj_at_set_field o1 o2 set_prop_fresh not_index_names split: jsval.splits)
  have keys: "map fst (obj_at h3 ?n) =
         filter (\<lambda>k. truthy (get_field h c k)) [''firstName'', ''lastName'', ''email'']"
    using assms(4) by (auto simp: o1 o2 o3 text_or_absent_def split: jsval.splits)
  have f1: "get_field h3 ?n ''firstName'' =
         (if truthy (get_field h c ''firstName'') then tokenized (get_field h c ''firstName'') else JUndefined)"
    by (simp add: get_field_def o1 o2 o3 get_prop_def split: jsval.splits)
  have f2: "get_field h3 ?n ''lastName'' =
         (if truthy (get_field h c ''lastName'') then tokenized (get_field h c ''lastName'') else JUndefined)"
    by (simp add: get_field_def o1 o2 o3 get_prop_def split: jsval.splits)
  have f3: "\<forall>s. get_field h c ''email'' = JStr s \<longrightarrow> s \<noteq> [] \<longrightarrow>
          get_field h3 ?n ''email'' =
            JStr (spec_token (hd (split_at CHR ''@'' s)) @ ''@'' @ template_text (part (split_at CHR ''@'' s) 1))"
    by (simp add: get_field_def o1 o2 o3 get_prop_def split: jsval.splits)
  show ?thesis
    using run len(3) old keys f1 f2 f3 by blast
qed

lemma anonymizeCustomer_typed:
  assumes "typed_customer h c"
  shows "\<exists>h'. anonymizeCustomer h c = Inr (h', length h) \<and> length h' = Suc (length h)
     \<and> map fst (obj_at h' (length h)) =
         filter (\<lambda>k. truthy (get_field h c k)) [''firstName'', ''lastName'', ''email'', ''address'']
     \<and> get_field h' (length h) ''firstName'' =
         (if truthy (get_field h c ''firstName'') then tokenized (get_field h c ''firstName'') else JUndefined)
     \<and> get_field h' (length h) ''lastName'' =
         (if truthy (get_field h c ''lastName'') then tokenized (get_field h c ''lastName'') else JUndefined)
     \<and> (\<forall>s. get_field h c ''email'' = JStr s \<longrightarrow> s \<noteq> [] \<longrightarrow>
          get_field h' (length h) ''email'' =
            JStr (spec_token (hd (split_at CHR ''@'' s)) @ ''@'' @ template_text (part (split_at CHR ''@'' s) 1)))
     \<and> get_field h' (length h) ''address'' = get_field h c ''address''
     \<and> (\<forall>b<length h. map fst (obj_at h' b) = map fst (obj_at h b))
     \<and> (\<forall>b<length h. \<forall>k. get_field h' b k =
          (if get_field h c ''address'' = JObj b \<and> k \<in> {''line1'', ''line2'', ''postcode''}
           then tokenized (get_field h b k) else get_field h b k))"
proof -
  let ?n = "length h"
  let ?f = "\<lambda>h3. bind_err (anonymize_address c ?n h3) (\<lambda>h4. Inr (h4, ?n))"
  have c: "c < ?n" and t: "text_or_absent (get_field h c ''firstName'')"
    "text_or_absent (get_field h c ''lastName'')" "text_or_absent (get_field h c ''email'')"
    using assms by (simp_all add: typed_customer_def)
  obtain h3 where h3: "anonymizeCustomer h c = ?f h3" "length h3 = Suc ?n"
    "\<forall>b<?n. obj_at h3 b = obj_at h b"
    "map fst (obj_at h3 ?n) = filter (\<lambda>k. truthy (get_field h c k)) [''firstName'', ''lastName'', ''email'']"
    "get_field h3 ?n ''firstName'' =
         (if truthy (get_field h c ''firstName'') then tokenized (get_field h c ''firstName'') else JUndefined)"
    "get_field h3 ?n ''lastName'' =
         (if truthy (get_field h c ''lastName'') then tokenized (get_field h c ''lastName'') else JUndefined)"
    "\<forall>s. get_field h c ''email'' = JStr s \<longrightarrow> s \<noteq> [] \<longrightarrow>
          get_field h3 ?n ''email'' =
            JStr (spec_token (hd (split_at CHR ''@'' s)) @ ''@'' @ template_text (part (split_at CHR ''@'' s) 1))"
    using anonymize_names_typed [OF c t, of ?f] unfolding anonymizeCustomer_def Let_def by blast
  have g3: "\<And>b k. b < ?n \<Longrightarrow> get_field h3 b k = get_field h b k"
    using h3(3) by (simp add: get_field_def)
  have noaddr: "''address'' \<notin> set (map fst (obj_at h3 ?n))"
    unfolding h3(4) by simp
  then have u3: "get_field h3 ?n ''address'' = JUndefined"
    using get_prop_keys [of "obj_at h3 ?n" "''address''"] by (auto simp: get_field_def)
  consider "get_field h c ''address'' = JUndefined"
    | a where "get_field h c ''address'' = JObj a" "typed_address h a"
    using assms by (auto simp: typed_customer_def split: jsval.splits)
  then show ?thesis
  proof cases
    case 1
    then have "anonymize_address c ?n h3 = Inr h3"
      using c by (simp add: anonymize_address_def g3)
    then have "anonymizeCustomer h c = Inr (h3, ?n)"
      by (simp add: h3(1) bind_err_def)
    then show ?thesis
      using h3 1 u3 g3 by (intro exI [of _ h3]) auto
  next
    case 2
    let ?h4 = "set_field h3 ?n ''address'' (JObj a)"
    have a: "a < ?n" using 2(2) by (simp add: typed_address_def)
    have k4: "get_field ?h4 c ''address'' = JObj a" "get_field ?h4 ?n ''address'' = JObj a"
      using c 2(1) h3(2) by (simp_all add: get_field_set_field g3)
    have t4: "\<forall>k\<in>set [''line1'', ''line2'', ''postcode'']. text_or_absent (get_field ?h4 a k)"
      using a 2(2) by (simp add: get_field_set_field g3 typed_address_def)
    obtain h' where h': "anonymize_keys c ?n [''line1'', ''line2'', ''postcode''] ?h4 = Inr h'"
      "length h' = length ?h4" "\<forall>b. b \<noteq> a \<longrightarrow> obj_at h' b = obj_at ?h4 b"
      "map fst (obj_at h' a) = map fst (obj_at ?h4 a)"
      "\<forall>k. get_field h' a k = (if k \<in> set [''line1'', ''line2'', ''postcode'']
          then tokenized (get_field ?h4 a k) else get_field ?h4 a k)"
      using anonymize_keys_typed [OF k4, of "[''line1'', ''line2'', ''postcode'']"] a h3(2) t4
      by auto
    have "anonymize_address c ?n h3 = Inr h'"
      using c 2(1) h'(1) by (simp add: anonymize_address_def g3)
    then have r: "anonymizeCustomer h c = Inr (h', ?n)"
      by (simp add: h3(1) bind_err_def)
    have on: "obj_at h' ?n = obj_at h3 ?n @ [(''address'', JObj a)]"
      using h'(3) a h3(2) noaddr
      by (simp add: obj_at_set_field set_prop_fresh not_index_names del: set_map)
    have keys: "map fst (obj_at h' ?n) =
         filter (\<lambda>k. truthy (get_field h c k)) [''firstName'', ''lastName'', ''email'', ''address'']"
      using 2(1) by (simp add: on h3(4))
    have gn: "\<And>k. k \<noteq> ''address'' \<Longrightarrow> get_field h' ?n k = get_field h3 ?n k"
      using h'(3) a h3(2) by (simp add: get_field_def obj_at_set_field get_prop_set_prop)
    have ga: "get_field h' ?n ''address'' = JObj a"
      using h'(3) a h3(2) by (simp add: get_field_def obj_at_set_field get_prop_set_prop)
    have old: "\<forall>b<?n. map fst (obj_at h' b) = map fst (obj_at h b)"
      using h'(3,4) h3(3) a by (auto simp: obj_at_set_field)
    have vals: "\<forall>b<?n. \<forall>k. get_field h' b k =
          (if get_field h c ''address'' = JObj b \<and> k \<in> {''line1'', ''line2'', ''postcode''}
           then tokenized (get_field h b k) else get_field h b k)"
    proof (intro allI impI)
      fix b k assume b: "b < ?n"
      show "get_field h' b k =
          (if get_field h c ''address'' = JObj b \<and> k \<in> {''line1'', ''line2'', ''postcode''}
           then tokenized (get_field h b k) else get_field h b k)"
      proof (cases "b = a")
        case True
        then show ?thesis
          using h'(5) 2(1) a by (simp add: get_field_set_field g3)
      next
        case False
        then have "get_field h' b k = get_field h b k"
          using h'(3) b by (simp add: get_field_def obj_at_set_field h3(3))
        with False 2(1) show ?thesis by simp
      qed
    qed
    show ?thesis
      using r h'(2) h3(2) keys gn h3(5,6,7) ga 2(1) old vals
      by (intro exI [of _ h']) simp
  qed
qed


section \<open>The email policy\<close>

lemma split_from_none: "c \<notin> set s \<Longrightarrow> split_from c cur s = [cur @ s]"
  by (induction s arbitrary: cur) auto

lemma split_from_append: "c \<notin> set l \<Longrightarrow> split_from c cur (l @ c # d) = (cur @ l) # split_from c [] d"
  by (induction l arbitrary: cur) auto

lemma split_at_none: "c \<notin> set s \<Longrightarrow> split_at c s = [s]"
  by (simp add: split_at_def split_from_none)

lemma split_at_append: "c \<notin> set l \<Longrightarrow> split_at c (l @ c # d) = l # split_at c d"
  by (simp add: split_at_def split_from_append)

lemma alnum_not_at: "alnum c \<Longrightarrow> c \<noteq> CHR ''@''"
  by (auto simp: alnum_def)

lemma spec_token_no_at: "CHR ''@'' \<notin> set (spec_token s)"
  using spec_token_alnum [of s] alnum_not_at by (auto simp: list_all_iff)

lemma spec_token_Jane: "spec_token ''Jane'' = ''VFUiDi7U''"
  using hash_JStr [of "''Jane''"] hash_Jane by simp

text \<open>
  C7.  For an email \<open>local@domain\<close> with exactly one \<open>@\<close>, in a record of the declared
  type, the anonymizer returns a record whose email is the token of \<open>local\<close>, then \<open>@\<close>,
  then \<open>domain\<close>: splitting the result at \<open>@\<close> gives the token and \<open>domain\<close> itself,
  character for character.
\<close>

theorem email_domain_preserved:
  assumes "typed_customer h c"
    and "get_field h c ''email'' = JStr (local @ ''@'' @ domain)"
    and "CHR ''@'' \<notin> set local" and "CHR ''@'' \<notin> set domain"
  shows "\<exists>h'. anonymizeCustomer h c = Inr (h', length h)
     \<and> hash (JStr local) = Inr (spec_token local)
     \<and> get_field h' (length h) ''email'' = JStr (spec_token local @ ''@'' @ domain)
     \<and> split_at CHR ''@'' (spec_token local @ ''@'' @ domain) = [spec_token local, domain]"
proof -
  have sp: "split_at CHR ''@'' (local @ ''@'' @ domain) = [local, domain]"
    using assms(3,4) by (simp add: split_at_append split_at_none)
  have sp': "split_at CHR ''@'' (spec_token local @ ''@'' @ domain) = [spec_token local, domain]"
    using assms(4) spec_token_no_at [of local] by (simp add: split_at_append split_at_none)
  obtain h' where "anonymizeCustomer h c = Inr (h', length h)"
    and "\<forall>s. get_field h c ''email'' = JStr s \<longrightarrow> s \<noteq> [] \<longrightarrow>
          get_field h' (length h) ''email'' =
            JStr (spec_token (hd (split_at CHR ''@'' s)) @ ''@'' @ template_text (part (split_at CHR ''@'' s) 1))"
    using anonymizeCustomer_typed [OF assms(1)] by blast
  then show ?thesis
    using assms(2) sp sp' by (auto simp: hash_JStr part_def template_text_def)
qed

theorem email_domain_preserved_witness:
  "typed_customer [[(''firstName'', JStr ''Jane''), (''email'', JStr ''Jane@example.com'')]] 0
   \<and> get_field [[(''firstName'', JStr ''Jane''), (''email'', JStr ''Jane@example.com'')]] 0 ''email''
       = JStr (''Jane'' @ ''@'' @ ''example.com'')
   \<and> CHR ''@'' \<notin> set ''Jane'' \<and> CHR ''@'' \<notin> set ''example.com''
   \<and> (\<exists>h'. anonymizeCustomer [[(''firstName'', JStr ''Jane''), (''email'', JStr ''Jane@example.com'')]] 0
              = Inr (h', 1)
          \<and> get_field h' 1 ''email'' = JStr ''VFUiDi7U@example.com'')"
proof -
  let ?h = "[[(''firstName'', JStr ''Jane''), (''email'', JStr ''Jane@example.com'')]]"
  have t: "typed_customer ?h 0"
    by (simp add: typed_customer_def get_field_def obj_at_def get_prop_def text_or_absent_def)
  have e: "get_field ?h 0 ''email'' = JStr (''Jane'' @ ''@'' @ ''example.com'')"
    by (simp add: get_field_def obj_at_def get_prop_def)
  have a: "CHR ''@'' \<notin> set ''Jane''" "CHR ''@'' \<notin> set ''example.com''"
    by simp_all
  have "\<exists>h'. anonymizeCustomer ?h 0 = Inr (h', 1)
          \<and> get_field h' 1 ''email'' = JStr ''VFUiDi7U@example.com''"
    using email_domain_preserved [OF t e a] by (auto simp: spec_token_Jane)
  with t e a show ?thesis by blast
qed

text \<open>
  C10.  For a non-empty email without any \<open>@\<close>, in a record of the declared type, the
  anonymizer still writes an email: the token of the whole string followed by
  \<open>@undefined\<close>.
\<close>

theorem email_without_at:
  assumes "typed_customer h c"
    and "get_field h c ''email'' = JStr email" and "email \<noteq> []" and "CHR ''@'' \<notin> set email"
  shows "\<exists>h'. anonymizeCustomer h c = Inr (h', length h)
     \<and> get_field h' (length h) ''email'' = JStr (spec_token email @ ''@undefined'')"
proof -
  obtain h' where "anonymizeCustomer h c = Inr (h', length h)"
    and "\<forall>s. get_field h c ''email'' = JStr s \<longrightarrow> s \<noteq> [] \<longrightarrow>
          get_field h' (length h) ''email'' =
            JStr (spec_token (hd (split_at CHR ''@'' s)) @ ''@'' @ template_text (part (split_at CHR ''@'' s) 1))"
    using anonymizeCustomer_typed [OF assms(1)] by blast
  then show ?thesis
    using assms(2,3,4) by (auto simp: split_at_none part_def template_text_def)
qed

theorem email_without_at_witness:
  "typed_customer [[(''email'', JStr ''Jane'')]] 0
   \<and> get_field [[(''email'', JStr ''Jane'')]] 0 ''email'' = JStr ''Jane''
   \<and> ''Jane'' \<noteq> [] \<and> CHR ''@'' \<notin> set ''Jane''
   \<and> (\<exists>h'. anonymizeCustomer [[(''email'', JStr ''Jane'')]] 0 = Inr (h', 1)
          \<and> get_field h' 1 ''email'' = JStr ''VFUiDi7U@undefined'')"
proof -
  let ?h = "[[(''email'', JStr ''Jane'')]]"
  have t: "typed_customer ?h 0"
    by (simp add: typed_customer_def get_field_def obj_at_def get_prop_def text_or_absent_def)
  have e: "get_field ?h 0 ''email'' = JStr ''Jane''"
    by (simp add: get_field_def obj_at_def get_prop_def)
  have a: "''Jane'' \<noteq> []" "CHR ''@'' \<notin> set ''Jane''"
    by simp_all
  show ?thesis
    using email_without_at [OF t e a] t e by (simp add: spec_token_Jane)
qed

section \<open>Which fields the anonymizer returns\<close>

text \<open>
  C6, as stated, fails: a field that is present with the empty string is left out of the
  result.  The record \<open>{firstName: ""}\<close> has \<open>firstName\<close>, its anonymized record is \<open>{}\<close>.
\<close>

theorem empty_field_omitted:
  "anonymizeCustomer [[(''firstName'', JStr '''')]] 0 = Inr ([[(''firstName'', JStr '''')], []], 1)
   \<and> ''firstName'' \<in> set (map fst (obj_at [[(''firstName'', JStr '''')]] 0))
   \<and> ''firstName'' \<notin> set (map fst (obj_at [[(''firstName'', JStr '''')], []] 1))"
  by (simp add: anonymizeCustomer_def anonymize_name_def anonymize_email_def anonymize_address_def
      bind_err_def get_field_def obj_at_def get_prop_def)

text \<open>
  C6, amended.  For a record of the declared type the result has exactly those of
  \<open>firstName\<close>, \<open>lastName\<close>, \<open>email\<close>, \<open>address\<close> whose value in the input passes the test
  \<open>if (value)\<close>, that is which are present and not the empty string; a field absent from the
  input is absent from the result.  The names hold their tokens, the email the token of
  its first piece, \<open>@\<close> and its second piece, and the address is the input's address object
  with the non-empty \<open>line1\<close>, \<open>line2\<close>, \<open>postcode\<close> replaced by their tokens and every other
  field as it was.
\<close>

theorem anonymized_fields:
  assumes "typed_customer h c"
  shows "\<exists>h'. anonymizeCustomer h c = Inr (h', length h)
     \<and> (\<forall>k. k \<in> set (map fst (obj_at h' (length h))) \<longleftrightarrow>
              k \<in> {''firstName'', ''lastName'', ''email'', ''address''} \<and> truthy (get_field h c k))
     \<and> (\<forall>k. get_field h c k = JUndefined \<longrightarrow> k \<notin> set (map fst (obj_at h' (length h))))
     \<and> (\<forall>k\<in>{''firstName'', ''lastName''}. \<forall>s. get_field h c k = JStr s \<longrightarrow> s \<noteq> [] \<longrightarrow>
            get_field h' (length h) k = JStr (spec_token s))
     \<and> (\<forall>s. get_field h c ''email'' = JStr s \<longrightarrow> s \<noteq> [] \<longrightarrow>
            get_field h' (length h) ''email'' =
              JStr (spec_token (hd (split_at CHR ''@'' s)) @ ''@'' @
                    template_text (part (split_at CHR ''@'' s) 1)))
     \<and> (\<forall>a. get_field h c ''address'' = JObj a \<longrightarrow>
            get_field h' (length h) ''address'' = JObj a
            \<and> (\<forall>k\<in>{''line1'', ''line2'', ''postcode''}. \<forall>s. get_field h a k = JStr s \<longrightarrow> s \<noteq> [] \<longrightarrow>
                  get_field h' a k = JStr (spec_token s))
            \<and> (\<forall>k. k \<notin> {''line1'', ''line2'', ''postcode''} \<longrightarrow> get_field h' a k = get_field h a k))"
proof -
  obtain h' where h': "anonymizeCustomer h c = Inr (h', length h)"
    "map fst (obj_at h' (length h)) =
         filter (\<lambda>k. truthy (get_field h c k)) [''firstName'', ''lastName'', ''email'', ''address'']"
    "get_field h' (length h) ''firstName'' =
         (if truthy (get_field h c ''firstName'') then tokenized (get_field h c ''firstName'') else JUndefined)"
    "get_field h' (length h) ''lastName'' =
         (if truthy (get_field h c ''lastName'') then tokenized (get_field h c ''lastName'') else JUndefined)"
    "\<forall>s. get_field h c ''email'' = JStr s \<longrightarrow> s \<noteq> [] \<longrightarrow>
          get_field h' (length h) ''email'' =
            JStr (spec_token (hd (split_at CHR ''@'' s)) @ ''@'' @ template_text (part (split_at CHR ''@'' s) 1))"
    "get_field h' (length h) ''address'' = get_field h c ''address''"
    "\<forall>b<length h. \<forall>k. get_field h' b k =
          (if get_field h c ''address'' = JObj b \<and> k \<in> {''line1'', ''line2'', ''postcode''}
           then tokenized (get_field h b k) else get_field h b k)"
    using anonymizeCustomer_typed [OF assms] by blast
  have keys: "\<forall>k. k \<in> set (map fst (obj_at h' (length h))) \<longleftrightarrow>
              k \<in> {''firstName'', ''lastName'', ''email'', ''address''} \<and> truthy (get_field h c k)"
    unfolding h'(2) by auto
  have absent: "\<forall>k. get_field h c k = JUndefined \<longrightarrow> k \<notin> set (map fst (obj_at h' (length h)))"
    using keys by auto
  have names: "\<forall>k\<in>{''firstName'', ''lastName''}. \<forall>s. get_field h c k = JStr s \<longrightarrow> s \<noteq> [] \<longrightarrow>
            get_field h' (length h) k = JStr (spec_token s)"
    using h'(3,4) by (auto simp: tokenized_def)
  have addr: "\<forall>a. get_field h c ''address'' = JObj a \<longrightarrow>
            get_field h' (length h) ''address'' = JObj a
            \<and> (\<forall>k\<in>{''line1'', ''line2'', ''postcode''}. \<forall>s. get_field h a k = JStr s \<longrightarrow> s \<noteq> [] \<longrightarrow>
                  get_field h' a k = JStr (spec_token s))
            \<and> (\<forall>k. k \<notin> {''line1'', ''line2'', ''postcode''} \<longrightarrow> get_field h' a k = get_field h a k)"
  proof (intro allI impI)
    fix a assume a: "get_field h c ''address'' = JObj a"
    then have "a < length h" using assms by (simp add: typed_customer_def typed_address_def)
    then have "\<forall>k. get_field h' a k =
          (if k \<in> {''line1'', ''line2'', ''postcode''} then tokenized (get_field h a k) else get_field h a k)"
      using h'(7) a by simp
    then show "get_field h' (length h) ''address'' = JObj a
            \<and> (\<forall>k\<in>{''line1'', ''line2'', ''postcode''}. \<forall>s. get_field h a k = JStr s \<longrightarrow> s \<noteq> [] \<longrightarrow>
                  get_field h' a k = JStr (spec_token s))
            \<and> (\<forall>k. k \<notin> {''line1'', ''line2'', ''postcode''} \<longrightarrow> get_field h' a k = get_field h a k)"
      using h'(6) a by (simp add: tokenized_def)
  qed
  show ?thesis
    using h'(1,5) keys absent names addr by blast
qed

theorem anonymized_fields_witness:
  "typed_customer [[(''firstName'', JStr ''Jane''), (''lastName'', JStr ''''), (''address'', JObj 1)],
                   [(''line1'', JStr ''Jane''), (''city'', JStr ''Paris'')]] 0
   \<and> (\<exists>h'. anonymizeCustomer [[(''firstName'', JStr ''Jane''), (''lastName'', JStr ''''), (''address'', JObj 1)],
                   [(''line1'', JStr ''Jane''), (''city'', JStr ''Paris'')]] 0 = Inr (h', 2)
          \<and> ''firstName'' \<in> set (map fst (obj_at h' 2))
          \<and> ''lastName'' \<notin> set (map fst (obj_at h' 2))
          \<and> ''email'' \<notin> set (map fst (obj_at h' 2))
          \<and> ''address'' \<in> set (map fst (obj_at h' 2))
          \<and> get_field h' 2 ''firstName'' = JStr ''VFUiDi7U''
          \<and> get_field h' 2 ''address'' = JObj 1
          \<and> get_field h' 1 ''line1'' = JStr ''VFUiDi7U''
          \<and> get_field h' 1 ''city'' = JStr ''Paris'')"
proof -
  let ?h = "[[(''firstName'', JStr ''Jane''), (''lastName'', JStr ''''), (''address'', JObj 1)],
             [(''line1'', JStr ''Jane''), (''city'', JStr ''Paris'')]]"
  have g: "get_field ?h 0 ''firstName'' = JStr ''Jane''" "get_field ?h 0 ''lastName'' = JStr ''''"
    "get_field ?h 0 ''email'' = JUndefined" "get_field ?h 0 ''address'' = JObj 1"
    "get_field ?h 1 ''line1'' = JStr ''Jane''" "get_field ?h 1 ''line2'' = JUndefined"
    "get_field ?h 1 ''postcode'' = JUndefined" "get_field ?h 1 ''city'' = JStr ''Paris''"
    by (simp_all add: get_field_def obj_at_def get_prop_def)
  have t: "typed_customer ?h 0"
    by (simp add: typed_customer_def typed_address_def text_or_absent_def get_field_def obj_at_def
        get_prop_def)
  from anonymized_fields [OF t] obtain h' where r: "anonymizeCustomer ?h 0 = Inr (h', length ?h)"
    and keys: "\<forall>k. k \<in> set (map fst (obj_at h' (length ?h))) \<longleftrightarrow>
              k \<in> {''firstName'', ''lastName'', ''email'', ''address''} \<and> truthy (get_field ?h 0 k)"
    and names: "\<forall>k\<in>{''firstName'', ''lastName''}. \<forall>s. get_field ?h 0 k = JStr s \<longrightarrow> s \<noteq> [] \<longrightarrow>
            get_field h' (length ?h) k = JStr (spec_token s)"
    and addr: "\<forall>a. get_field ?h 0 ''address'' = JObj a \<longrightarrow>
            get_field h' (length ?h) ''address'' = JObj a
            \<and> (\<forall>k\<in>{''line1'', ''line2'', ''postcode''}. \<forall>s. get_field ?h a k = JStr s \<longrightarrow> s \<noteq> [] \<longrightarrow>
                  get_field h' a k = JStr (spec_token s))
            \<and> (\<forall>k. k \<notin> {''line1'', ''line2'', ''postcode''} \<longrightarrow> get_field h' a k = get_field ?h a k)"
    by (elim exE conjE)
  have len: "length ?h = 2" by simp
  have 1: "''firstName'' \<in> set (map fst (obj_at h' 2))" "''lastName'' \<notin> set (map fst (obj_at h' 2))"
    "''email'' \<notin> set (map fst (obj_at h' 2))" "''address'' \<in> set (map fst (obj_at h' 2))"
    unfolding keys [unfolded len, rule_format] g by simp_all
  have 2: "get_field h' 2 ''firstName'' = JStr ''VFUiDi7U''"
    using names [unfolded len, rule_format, of "''firstName''" "''Jane''"]
    unfolding g spec_token_Jane by simp
  have a: "get_field h' 2 ''address'' = JObj 1
            \<and> (\<forall>k\<in>{''line1'', ''line2'', ''postcode''}. \<forall>s. get_field ?h 1 k = JStr s \<longrightarrow> s \<noteq> [] \<longrightarrow>
                  get_field h' 1 k = JStr (spec_token s))
            \<and> (\<forall>k. k \<notin> {''line1'', ''line2'', ''postcode''} \<longrightarrow> get_field h' 1 k = get_field ?h 1 k)"
    using addr [unfolded len, rule_format, OF g(4)] .
  have 3: "get_field h' 2 ''address'' = JObj 1"
    using a by (rule conjunct1)
  have 4: "get_field h' 1 ''line1'' = JStr ''VFUiDi7U''"
    using a [THEN conjunct2, THEN conjunct1, rule_format, of "''line1''" "''Jane''"]
    unfolding g spec_token_Jane by simp
  have 5: "get_field h' 1 ''city'' = JStr ''Paris''"
    using a [THEN conjunct2, THEN conjunct2, rule_format, of "''city''"]
    unfolding g by simp
  show ?thesis
    using t r [unfolded len] 1 2 3 4 5 by (intro conjI exI [of _ h'])
qed

section \<open>The argument of the anonymizer after the call\<close>

text \<open>
  C5 does not hold of the code.  \<open>anonymous.address = customer.address\<close> makes the result
  share the address object of the argument, and the loop over \<open>line1\<close>, \<open>line2\<close>,
  \<open>postcode\<close> writes the tokens into it: after the call the argument's own \<open>address.line1\<close>
  is the token \<open>VFUiDi7U\<close> and no longer \<open>Jane\<close>.
\<close>

theorem address_written_in_place:
  "anonymizeCustomer
     [[(''address'', JObj 1)],
      [(''line1'', JStr ''Jane''), (''line2'', JStr ''Flat 2''), (''postcode'', JStr ''75001''),
       (''city'', JStr ''Paris''), (''state'', JStr ''IDF''), (''country'', JStr ''FR'')]] 0
     = Inr ([[(''address'', JObj 1)],
             [(''line1'', JStr ''VFUiDi7U''), (''line2'', JStr (spec_token ''Flat 2'')),
              (''postcode'', JStr (spec_token ''75001'')),
              (''city'', JStr ''Paris''), (''state'', JStr ''IDF''), (''country'', JStr ''FR'')],
             [(''address'', JObj 1)]], 2)
   \<and> get_field
        [[(''address'', JObj 1)],
         [(''line1'', JStr ''Jane''), (''line2'', JStr ''Flat 2''), (''postcode'', JStr ''75001''),
          (''city'', JStr ''Paris''), (''state'', JStr ''IDF''), (''country'', JStr ''FR'')]] 1 ''line1''
       = JStr ''Jane''
   \<and> JStr ''VFUiDi7U'' \<noteq> JStr ''Jane''"
  by (simp add: anonymizeCustomer_def anonymize_name_def anonymize_email_def anonymize_address_def
      bind_err_def get_field_def set_field_def obj_at_def get_prop_def set_prop_def member_def
      set_member_def assign_field_def hash_JStr spec_token_Jane is_array_index_def
      digit_char_def)


section \<open>One address field, nested and dotted\<close>

lemma set_prop_empty: "set_prop [] k v = [(k, v)]"
  by (simp add: set_prop_def)

lemma set_prop_same: "set_prop [(k, w)] k v = [(k, v)]"
  by (simp add: set_prop_def)

lemma split_dotted: "CHR ''.'' \<notin> set f \<Longrightarrow> split_at CHR ''.'' (''address.'' @ f) = [''address'', f]"
  by (simp add: split_at_def split_from_none)

lemma not_index_dotted: "\<not> is_array_index (''address.'' @ f)"
  by (simp add: is_array_index_def digit_char_def)


lemma createUpdate_dotted:
  assumes "CHR ''.'' \<notin> set f" and "f \<noteq> ''__proto__''"
  shows "createUpdate_loop 0 1 [''address.'' @ f] (False, [[(''address.'' @ f, JStr v)]] @ [[]])
           = Inr (False, [[(''address.'' @ f, JStr v)], [(''address'', JObj 2)], [(f, JStr v)]])"
    and "createUpdate [[(''address.'' @ f, JStr v)]] 0
     = Inr ([[(''address.'' @ f, JStr v)], [(''address'', JObj 2)],
             [(f, if f \<in> {''line1'', ''line2'', ''postcode''} then tokenized (JStr v) else JStr v)],
             [(''address'', JObj 2)],
             [(''address.'' @ f, if f \<in> {''line1'', ''line2'', ''postcode''} then tokenized (JStr v) else JStr v)]], 4)"
proof -
  have sp: "split_at CHR ''.'' (CHR ''a'' # CHR ''d'' # CHR ''d'' # CHR ''r'' # CHR ''e'' # CHR ''s'' # CHR ''s'' # CHR ''.'' # f) = [''address'', f]"
    using split_dotted [OF assms(1)] by simp
  show l: "createUpdate_loop 0 1 [''address.'' @ f] (False, [[(''address.'' @ f, JStr v)]] @ [[]])
           = Inr (False, [[(''address.'' @ f, JStr v)], [(''address'', JObj 2)], [(f, JStr v)]])"
    using assms(2)
    by (simp add: createUpdate_body_def startsWith_def sp part_def get_field_def obj_at_def
        get_prop_def set_field_def set_prop_empty set_member_def assign_field_def bind_err_def
        Let_def)
  show "createUpdate [[(''address.'' @ f, JStr v)]] 0
     = Inr ([[(''address.'' @ f, JStr v)], [(''address'', JObj 2)],
             [(f, if f \<in> {''line1'', ''line2'', ''postcode''} then tokenized (JStr v) else JStr v)],
             [(''address'', JObj 2)],
             [(''address.'' @ f, if f \<in> {''line1'', ''line2'', ''postcode''} then tokenized (JStr v) else JStr v)]], 4)"
    using assms(2)
    by (auto simp add: createUpdate_body_def startsWith_def sp part_def createUpdate_def obj_at_def
        bind_err_def anonymizeCustomer_def anonymize_name_def anonymize_email_def
        anonymize_address_def get_field_def get_prop_def set_field_def set_prop_empty
        set_prop_same member_def set_member_def assign_field_def hash_JStr tokenized_def
        convertCustomerUpdateToDotNotation_def enumerate_keys_def Let_def)
qed

lemma createUpdate_nested:
  "createUpdate_loop 0 2 [''address''] (False, [[(''address'', JObj 1)], [(f, JStr v)]] @ [[]])
     = Inr (True, [[(''address'', JObj 1)], [(f, JStr v)], [(''address'', JObj 1)]])"
  "createUpdate [[(''address'', JObj 1)], [(f, JStr v)]] 0
     = Inr ([[(''address'', JObj 1)],
             [(f, if f \<in> {''line1'', ''line2'', ''postcode''} then tokenized (JStr v) else JStr v)],
             [(''address'', JObj 1)], [(''address'', JObj 1)]], 3)"
  by (auto simp add: createUpdate_body_def startsWith_def createUpdate_def obj_at_def bind_err_def
        anonymizeCustomer_def
        anonymize_name_def anonymize_email_def anonymize_address_def get_field_def get_prop_def
        set_field_def set_prop_empty set_prop_same member_def set_member_def assign_field_def
        hash_JStr tokenized_def convertCustomerUpdateToDotNotation_def enumerate_keys_def Let_def)

lemma convert_nested_result:
  "convertCustomerUpdateToDotNotation
     [[(''address'', JObj 1)], [(f, x)], [(''address'', JObj 1)], [(''address'', JObj 1)]] 3
     = ([[(''address'', JObj 1)], [(f, x)], [(''address'', JObj 1)], [(''address'', JObj 1)],
         [(''address.'' @ f, x)]], 4)"
  by (simp add: obj_at_def get_field_def get_prop_def set_field_def set_prop_empty member_def
      assign_field_def convertCustomerUpdateToDotNotation_def enumerate_keys_def Let_def)

text \<open>
  C4, as stated, fails: the delta \<open>{address: {line1: "Jane"}}\<close> has the bare key \<open>address\<close>,
  so the flag \<open>rewriteFullAddress\<close> becomes true and the write is
  \<open>{address: {line1: token}}\<close>, while \<open>{"address.line1": "Jane"}\<close> leaves the flag false and
  gives the write \<open>{"address.line1": token}\<close>: the keys differ and so do the flags.
\<close>

theorem nested_and_dotted_differ:
  "createUpdate [[(''address'', JObj 1)], [(''line1'', JStr ''Jane'')]] 0
     = Inr ([[(''address'', JObj 1)], [(''line1'', JStr ''VFUiDi7U'')], [(''address'', JObj 1)],
             [(''address'', JObj 1)]], 3)
   \<and> createUpdate [[(''address.line1'', JStr ''Jane'')]] 0
     = Inr ([[(''address.line1'', JStr ''Jane'')], [(''address'', JObj 2)],
             [(''line1'', JStr ''VFUiDi7U'')], [(''address'', JObj 2)],
             [(''address.line1'', JStr ''VFUiDi7U'')]], 4)
   \<and> [(''address'', JObj 1)] \<noteq> [(''address.line1'', JStr ''VFUiDi7U'')]
   \<and> createUpdate_loop 0 2 [''address''] (False, [[(''address'', JObj 1)], [(''line1'', JStr ''Jane'')], []])
     = Inr (True, [[(''address'', JObj 1)], [(''line1'', JStr ''Jane'')], [(''address'', JObj 1)]])
   \<and> createUpdate_loop 0 1 [''address.line1''] (False, [[(''address.line1'', JStr ''Jane'')], []])
     = Inr (False, [[(''address.line1'', JStr ''Jane'')], [(''address'', JObj 2)],
                    [(''line1'', JStr ''Jane'')]])"
  by (simp add: createUpdate_body_def startsWith_def split_at_def part_def createUpdate_def
      obj_at_def bind_err_def anonymizeCustomer_def anonymize_name_def anonymize_email_def anonymize_address_def
      get_field_def get_prop_def set_field_def set_prop_empty set_prop_same member_def
      set_member_def assign_field_def hash_JStr spec_token_Jane
      convertCustomerUpdateToDotNotation_def enumerate_keys_def Let_def)

text \<open>
  C4, amended.  For a field name \<open>f\<close> without a dot and other than \<open>__proto__\<close> (which the
  dotted delta would assign to the setter of \<open>Object.prototype\<close>, leaving its write empty)
  and a string \<open>v\<close>, both deltas are
  reconstructed with the same value \<open>x\<close> for the field: the token of \<open>v\<close> when \<open>f\<close> is
  \<open>line1\<close>, \<open>line2\<close> or \<open>postcode\<close> and \<open>v\<close> is not empty, and \<open>v\<close> itself otherwise.  The
  dotted delta leaves the flag false and its write has the one key \<open>address.f\<close> with \<open>x\<close>;
  the nested delta sets the flag and its write has the one key \<open>address\<close> with the object
  \<open>{f: x}\<close>; converting the nested write to dot notation gives the key \<open>address.f\<close> with
  \<open>x\<close>.
\<close>

theorem nested_and_dotted_forms:
  assumes "CHR ''.'' \<notin> set f" and "f \<noteq> ''__proto__''"
  shows "\<exists>x. x = (if f \<in> {''line1'', ''line2'', ''postcode''} then tokenized (JStr v) else JStr v)
     \<and> createUpdate_loop 0 1 [''address.'' @ f] (False, [[(''address.'' @ f, JStr v)]] @ [[]])
           = Inr (False, [[(''address.'' @ f, JStr v)], [(''address'', JObj 2)], [(f, JStr v)]])
     \<and> createUpdate [[(''address.'' @ f, JStr v)]] 0
           = Inr ([[(''address.'' @ f, JStr v)], [(''address'', JObj 2)], [(f, x)],
                   [(''address'', JObj 2)], [(''address.'' @ f, x)]], 4)
     \<and> createUpdate_loop 0 2 [''address''] (False, [[(''address'', JObj 1)], [(f, JStr v)]] @ [[]])
           = Inr (True, [[(''address'', JObj 1)], [(f, JStr v)], [(''address'', JObj 1)]])
     \<and> createUpdate [[(''address'', JObj 1)], [(f, JStr v)]] 0
           = Inr ([[(''address'', JObj 1)], [(f, x)], [(''address'', JObj 1)],
                   [(''address'', JObj 1)]], 3)
     \<and> convertCustomerUpdateToDotNotation
           [[(''address'', JObj 1)], [(f, x)], [(''address'', JObj 1)], [(''address'', JObj 1)]] 3
           = ([[(''address'', JObj 1)], [(f, x)], [(''address'', JObj 1)], [(''address'', JObj 1)],
               [(''address.'' @ f, x)]], 4)"
  using createUpdate_dotted [OF assms, of v] createUpdate_nested [of f v] convert_nested_result [of f]
  by (intro exI conjI) (rule refl, (assumption | rule allI)+)

theorem nested_and_dotted_forms_witness:
  "CHR ''.'' \<notin> set ''line2'' \<and> ''line2'' \<noteq> ''__proto__''
   \<and> createUpdate [[(''address.line2'', JStr ''Jane'')]] 0
         = Inr ([[(''address.line2'', JStr ''Jane'')], [(''address'', JObj 2)],
                 [(''line2'', JStr ''VFUiDi7U'')], [(''address'', JObj 2)],
                 [(''address.line2'', JStr ''VFUiDi7U'')]], 4)
   \<and> createUpdate [[(''address'', JObj 1)], [(''line2'', JStr ''Jane'')]] 0
         = Inr ([[(''address'', JObj 1)], [(''line2'', JStr ''VFUiDi7U'')], [(''address'', JObj 1)],
                 [(''address'', JObj 1)]], 3)"
proof -
  have d: "CHR ''.'' \<notin> set ''line2''" "''line2'' \<noteq> ''__proto__''" by simp_all
  have x: "(if ''line2'' \<in> {''line1'', ''line2'', ''postcode''} then tokenized (JStr ''Jane'')
            else JStr ''Jane'') = JStr ''VFUiDi7U''"
    by (simp add: tokenized_def spec_token_Jane)
  show ?thesis
    using nested_and_dotted_forms [OF d, of "''Jane''"] d unfolding x by auto
qed


section \<open>A delta with the bare key \<open>address\<close>\<close>

































section \<open>Update events without a delta\<close>

lemma createUpdate_empty: "createUpdate [[]] 0 = Inr ([[], [], [], []], 3)"
  by (simp add: createUpdate_def obj_at_def bind_err_def anonymizeCustomer_def anonymize_name_def
      anonymize_email_def anonymize_address_def get_field_def get_prop_def
      convertCustomerUpdateToDotNotation_def Let_def)

lemma absent_delta_dropped:
  "\<exists>st'. step (Change (UpdateChange i None removedFields) t) st = Inr st'
     \<and> console st' = console st @ [UpdatedFieldsNotProvided]
     \<and> updates st' = updates st \<and> bulkWrites st' = bulkWrites st \<and> flights st' = flights st
     \<and> saves st' = saves st \<and> store st' = store st \<and> timers st' = timers st"
  by (simp add: step_def on_change_def)

text \<open>
  C8 does not hold of the code.  The guard \<open>if (!updatedFields)\<close> logs and returns only when
  \<open>updatedFields\<close> is absent; the empty object that the feed sends with an event of removals
  only is truthy and passes it.  The event with identifier \<open>7\<close>, the empty \<open>updatedFields\<close>
  object and the removed field \<open>lastName\<close> is not dropped: started from the initial state, the
  handler enqueues a pending update for the identifier whose field set is the empty object, with
  the resume token of the event, and the console stays empty.
\<close>

theorem empty_delta_enqueued:
  "step (Change (UpdateChange (JNum 7) (Some 0) [''lastName'']) (JNum 100)) (syncMode [[]] None)
     = Inr \<lparr>store = [[], [], [], []],
            updates = [\<lparr>target_id = JNum 7, update = 3, resumeToken = JNum 100\<rparr>],
            timerId = 0, timers = [(0, 1000)], next_id = 1, flights = [], bulkWrites = [],
            saves = [], token_file = None, console = []\<rparr>
   \<and> obj_at [[], [], [], []] 3 = []"
  by (simp add: step_def on_change_def createUpdate_empty bind_err_def syncMode_def repeat_def
      push_update_def flush_if_full_def MAX_BATCH_SIZE_def UPDATES_INTERVAL_def obj_at_def)

section \<open>The bounds of the queue\<close>

lemma updates_repeat [simp]: "updates (repeat d st) = updates st"
  by (simp add: repeat_def)

lemma updates_on_finally [simp]: "updates (on_finally org now st) = updates st"
  by (simp add: on_finally_def Let_def split: origin.splits)

lemma updates_clearTimeout [simp]: "updates (clearTimeout t st) = updates st"
  by (simp add: clearTimeout_def)

lemma updates_bulkWriteUpdates [simp]: "updates (bulkWriteUpdates org now st) = []"
  by (simp add: bulkWriteUpdates_def Let_def)

lemma updates_bulkWrite_settled [simp]: "updates (bulkWrite_settled i ok st) = updates st"
  by (simp add: bulkWrite_settled_def split: list.splits)

lemma updates_save_settled [simp]: "updates (save_settled i ok now st) = updates st"
  by (simp add: save_settled_def split: list.splits)










section \<open>The checkpoint of a flush\<close>

lemma fresh_repeat: "fresh_ids st \<Longrightarrow> fresh_ids (repeat d st)"
  by (auto simp: fresh_ids_def repeat_def less_Suc_eq)

lemma fresh_on_finally: "fresh_ids st \<Longrightarrow> fresh_ids (on_finally org now st)"
  by (simp add: on_finally_def Let_def fresh_repeat split: origin.splits)

lemma fresh_clearTimeout: "fresh_ids (clearTimeout t st) = fresh_ids st"
  by (simp add: fresh_ids_def clearTimeout_def)

lemma fresh_bulkWriteUpdates: "fresh_ids st \<Longrightarrow> fresh_ids (bulkWriteUpdates org now st)"
proof (cases "updates st = []")
  case True
  assume "fresh_ids st"
  with True show ?thesis by (simp add: bulkWriteUpdates_def fresh_on_finally)
next
  case False
  assume "fresh_ids st"
  with False show ?thesis
    by (auto simp: bulkWriteUpdates_def Let_def fresh_ids_def less_Suc_eq)
qed

lemma fresh_flush_if_full: "fresh_ids st \<Longrightarrow> fresh_ids (flush_if_full now st)"
  by (simp add: flush_if_full_def fresh_bulkWriteUpdates fresh_clearTimeout)

lemma fresh_push: "fresh_ids (push_update i u t st) = fresh_ids st"
  by (simp add: fresh_ids_def push_update_def)

lemma fresh_store: "fresh_ids (st\<lparr>store := h\<rparr>) = fresh_ids st"
  by (simp add: fresh_ids_def)

lemma fresh_console: "fresh_ids (st\<lparr>console := c\<rparr>) = fresh_ids st"
  by (simp add: fresh_ids_def)

lemma fresh_bulkWrite_settled: "fresh_ids st \<Longrightarrow> fresh_ids (bulkWrite_settled i ok st)"
  by (auto simp: bulkWrite_settled_def fresh_ids_def split: list.splits)

lemma fresh_subset:
  "fresh_ids st \<Longrightarrow> set (flights st') \<subseteq> set (flights st) \<Longrightarrow> next_id st' = next_id st \<Longrightarrow> fresh_ids st'"
  by (auto simp: fresh_ids_def)

lemma fresh_save_settled: "fresh_ids st \<Longrightarrow> fresh_ids (save_settled i ok now st)"
  by (auto simp: save_settled_def split: list.splits intro!: fresh_on_finally elim!: fresh_subset)

lemma fresh_step: "fresh_ids st \<Longrightarrow> step a st = Inr st' \<Longrightarrow> fresh_ids st'"
  by (cases a)
     (auto simp: step_def on_change_def bind_err_def fresh_flush_if_full fresh_push fresh_store
        fresh_console fresh_bulkWrite_settled fresh_save_settled timer_fired_def
        fresh_bulkWriteUpdates fresh_clearTimeout
        split: change.splits option.splits sum.splits prod.splits if_splits)

lemma fresh_run: "fresh_ids st \<Longrightarrow> run as st = Inr st' \<Longrightarrow> fresh_ids st'"
proof (induction as arbitrary: st)
  case Nil
  then show ?case by simp
next
  case (Cons a as)
  then obtain st1 where s: "step a st = Inr st1" "run as st1 = Inr st'"
    by (auto simp: bind_err_def split: sum.splits)
  show ?case using Cons.IH [OF fresh_step [OF Cons.prems(1) s(1)] s(2)] .
qed

lemma fresh_syncMode: "fresh_ids (syncMode h tok)"
  by (simp add: fresh_ids_def syncMode_def repeat_def)

lemma awaiting_flights:
  "awaiting_write i tok n st \<Longrightarrow> flights st' = flights st \<Longrightarrow> next_id st \<le> next_id st' \<Longrightarrow>
   awaiting_write i tok n st'"
  by (auto simp: awaiting_write_def)

lemma awaiting_repeat: "awaiting_write i tok n st \<Longrightarrow> awaiting_write i tok n (repeat d st)"
  by (erule awaiting_flights) (simp_all add: repeat_def)

lemma awaiting_on_finally: "awaiting_write i tok n st \<Longrightarrow> awaiting_write i tok n (on_finally org now st)"
  by (simp add: on_finally_def Let_def awaiting_repeat split: origin.splits)

lemma awaiting_clearTimeout: "awaiting_write i tok n st \<Longrightarrow> awaiting_write i tok n (clearTimeout t st)"
  by (erule awaiting_flights) (simp_all add: clearTimeout_def)

lemma awaiting_push: "awaiting_write i tok n st \<Longrightarrow> awaiting_write i tok n (push_update j u t st)"
  by (erule awaiting_flights) (simp_all add: push_update_def)

lemma awaiting_store: "awaiting_write i tok n st \<Longrightarrow> awaiting_write i tok n (st\<lparr>store := h\<rparr>)"
  by (erule awaiting_flights) simp_all

lemma awaiting_console: "awaiting_write i tok n st \<Longrightarrow> awaiting_write i tok n (st\<lparr>console := c\<rparr>)"
  by (erule awaiting_flights) simp_all

lemma awaiting_bulkWriteUpdates:
  "awaiting_write i tok n st \<Longrightarrow> awaiting_write i tok n (bulkWriteUpdates org now st)"
proof (cases "updates st = []")
  case True
  assume "awaiting_write i tok n st"
  with True show ?thesis by (simp add: bulkWriteUpdates_def awaiting_on_finally)
next
  case False
  assume "awaiting_write i tok n st"
  with False show ?thesis
    by (auto simp: bulkWriteUpdates_def Let_def awaiting_write_def)
qed

lemma awaiting_flush_if_full: "awaiting_write i tok n st \<Longrightarrow> awaiting_write i tok n (flush_if_full now st)"
  by (simp add: flush_if_full_def awaiting_bulkWriteUpdates awaiting_clearTimeout)

lemma awaiting_timer_fired: "awaiting_write i tok n st \<Longrightarrow> awaiting_write i tok n (timer_fired t now st)"
  by (simp add: timer_fired_def awaiting_bulkWriteUpdates awaiting_clearTimeout)

lemma filter_id_map:
  "j \<noteq> i \<Longrightarrow> filter (\<lambda>f. flight_id f = i) (map (\<lambda>g. if flight_id g = j then g\<lparr>saving := True\<rparr> else g) fs)
     = filter (\<lambda>f. flight_id f = i) fs"
  by (induction fs) auto

lemma awaiting_bulkWrite_settled:
  "awaiting_write i tok n st \<Longrightarrow> j \<noteq> i \<Longrightarrow> awaiting_write i tok n (bulkWrite_settled j ok st)"
  by (auto simp: bulkWrite_settled_def awaiting_write_def filter_id_map split: list.splits)

lemma filter_single:
  assumes "filter Q xs = [f]"
  shows "filter (\<lambda>x. Q x \<and> P x) xs = (if P f then [f] else [])"
proof -
  have "filter (\<lambda>x. Q x \<and> P x) xs = filter P (filter Q xs)" by simp
  then show ?thesis unfolding assms by simp
qed

lemma filter_id_neq:
  "j \<noteq> i \<Longrightarrow> filter (\<lambda>x. flight_id x \<noteq> j \<and> flight_id x = i) fs = filter (\<lambda>f. flight_id f = i) fs"
  by (induction fs) auto

lemma awaiting_save_settled:
  assumes "awaiting_write i tok n st"
  shows "awaiting_write i tok n (save_settled j ok now st)"
proof (cases "j = i")
  case True
  have "filter (\<lambda>f. flight_id f = i \<and> saving f) (flights st) = []"
    using assms by (auto simp: awaiting_write_def filter_single)
  with True assms show ?thesis by (simp add: save_settled_def)
next
  case False
  have r: "\<And>st'. flights st' = filter (\<lambda>g. flight_id g \<noteq> j) (flights st) \<Longrightarrow>
      next_id st' = next_id st \<Longrightarrow> awaiting_write i tok n st'"
    using assms False by (auto simp: awaiting_write_def filter_id_neq)
  show ?thesis
    by (auto simp: save_settled_def assms split: list.splits intro!: awaiting_on_finally r)
qed

lemma awaiting_step:
  assumes "awaiting_write i tok n st" "step a st = Inr st'" "\<forall>ok. a \<noteq> BulkWriteSettled i ok"
  shows "awaiting_write i tok n st'"
proof (cases a)
  case (Change ch t)
  then show ?thesis
    using assms(1,2)
    by (auto simp: step_def on_change_def bind_err_def awaiting_flush_if_full awaiting_push
        awaiting_store awaiting_console split: change.splits option.splits sum.splits prod.splits)
next
  case (TimerFired t now)
  then show ?thesis using assms(1,2) by (auto simp: step_def awaiting_timer_fired)
next
  case (BulkWriteSettled j ok)
  then have "j \<noteq> i" using assms(3) by auto
  then show ?thesis using BulkWriteSettled assms(1,2) by (auto simp: step_def awaiting_bulkWrite_settled)
next
  case (SaveSettled j ok now)
  then show ?thesis using assms(1,2) by (auto simp: step_def awaiting_save_settled)
qed

lemma awaiting_run:
  "awaiting_write i tok n st \<Longrightarrow> run as st = Inr st' \<Longrightarrow> \<forall>a\<in>set as. \<forall>ok. a \<noteq> BulkWriteSettled i ok \<Longrightarrow>
   awaiting_write i tok n st'"
proof (induction as arbitrary: st)
  case Nil
  then show ?case by simp
next
  case (Cons a as)
  then obtain st1 where s: "step a st = Inr st1" "run as st1 = Inr st'"
    by (auto simp: bind_err_def split: sum.splits)
  have "awaiting_write i tok n st1"
    using awaiting_step [OF Cons.prems(1) s(1)] Cons.prems(3) by simp
  then show ?case using Cons.IH [OF _ s(2)] Cons.prems(3) by simp
qed

lemma awaiting_start:
  assumes "fresh_ids st" "updates st \<noteq> []"
  shows "awaiting_write (next_id st) (resumeToken (last (updates st))) (length (updates st))
           (bulkWriteUpdates org now st)"
proof -
  have "filter (\<lambda>f. flight_id f = next_id st) (flights st) = []"
    using assms(1) by (auto simp: fresh_ids_def filter_empty_conv)
  then show ?thesis
    using assms(2) by (simp add: bulkWriteUpdates_def Let_def awaiting_write_def)
qed

lemma awaiting_settle:
  assumes "awaiting_write i tok n st"
  shows "saves (bulkWrite_settled i ok st) = saves st @ [tok]
    \<and> console (bulkWrite_settled i ok st) = console st @ [if ok then WroteDocs n else BulkWriteFailed]
    \<and> updates (bulkWrite_settled i ok st) = updates st
    \<and> bulkWrites (bulkWrite_settled i ok st) = bulkWrites st
    \<and> store (bulkWrite_settled i ok st) = store st"
proof -
  obtain f where f: "filter (\<lambda>f. flight_id f = i) (flights st) = [f]" "lastResumeToken f = tok"
    "op_count f = n" "\<not> saving f"
    using assms by (auto simp: awaiting_write_def)
  have "filter (\<lambda>f. flight_id f = i \<and> \<not> saving f) (flights st) = [f]"
    using f(4) by (simp add: filter_single [OF f(1)])
  then show ?thesis
    using f(2,3) by (simp add: bulkWrite_settled_def)
qed

lemma filter_saving_map:
  assumes "filter (\<lambda>f. flight_id f = i) fs = [f]"
  shows "filter (\<lambda>f. flight_id f = i \<and> saving f)
           (map (\<lambda>g. if flight_id g = i then g\<lparr>saving := True\<rparr> else g) fs) = [f\<lparr>saving := True\<rparr>]"
  using assms
proof (induction fs)
  case Nil
  then show ?case by simp
next
  case (Cons g fs)
  show ?case
  proof (cases "flight_id g = i")
    case True
    then have "g = f" "filter (\<lambda>f. flight_id f = i) fs = []"
      using Cons.prems by simp_all
    then show ?thesis using True by (auto simp: filter_empty_conv)
  next
    case False
    then show ?thesis using Cons by simp
  qed
qed

lemma awaiting_saved:
  assumes "awaiting_write i tok n st"
  shows "token_file (save_settled i True now (bulkWrite_settled i ok st)) = Some tok"
proof -
  obtain f where f: "filter (\<lambda>f. flight_id f = i) (flights st) = [f]" "lastResumeToken f = tok"
    "\<not> saving f"
    using assms by (auto simp: awaiting_write_def)
  have 1: "filter (\<lambda>f. flight_id f = i \<and> \<not> saving f) (flights st) = [f]"
    using f(3) by (simp add: filter_single [OF f(1)])
  have "token_file (on_finally org now s) = token_file s" for org s
    by (simp add: on_finally_def repeat_def Let_def split: origin.splits)
  then show ?thesis
    using f(2) by (simp add: save_settled_def bulkWrite_settled_def 1 filter_saving_map [OF f(1)])
qed

text \<open>
  C2.  A flush of a non-empty queue empties the queue and issues one bulk write of the
  snapshot.  Whatever happens before the bulk write settles (change events, timeouts, other
  flushes), when it settles, fulfilled or rejected, the token passed to
  \<open>saveResumeToken\<close> is the token of the last update of the snapshot, and once that write
  succeeds it is the content of the token file.  A rejected bulk write is logged; it
  changes neither the queue nor the writes issued: the snapshot is not queued again and is
  not written again.  \<open>fresh_ids\<close> holds in every state \<open>syncMode\<close> reaches.
\<close>

theorem checkpoint_of_flush:
  assumes "fresh_ids st" and "updates st \<noteq> []"
    and "run during (bulkWriteUpdates org now st) = Inr st2"
    and "\<forall>a\<in>set during. \<forall>ok. a \<noteq> BulkWriteSettled (next_id st) ok"
  shows "updates (bulkWriteUpdates org now st) = []
     \<and> bulkWrites (bulkWriteUpdates org now st) =
         bulkWrites st @ [map (\<lambda>u. \<lparr>filter_id = target_id u, set_fields = update u, upsert = True\<rparr>)
                           (updates st)]
     \<and> (\<forall>ok. \<exists>st3. step (BulkWriteSettled (next_id st) ok) st2 = Inr st3
            \<and> saves st3 = saves st2 @ [resumeToken (last (updates st))]
            \<and> console st3 = console st2 @
                 [if ok then WroteDocs (length (updates st)) else BulkWriteFailed]
            \<and> updates st3 = updates st2 \<and> bulkWrites st3 = bulkWrites st2
            \<and> (\<forall>now'. \<exists>st4. step (SaveSettled (next_id st) True now') st3 = Inr st4
                  \<and> token_file st4 = Some (resumeToken (last (updates st)))))"
proof -
  have a: "awaiting_write (next_id st) (resumeToken (last (updates st))) (length (updates st)) st2"
    using awaiting_run [OF awaiting_start [OF assms(1,2)] assms(3,4)] .
  show ?thesis
    using assms(2) awaiting_settle [OF a] awaiting_saved [OF a]
    by (simp add: step_def bulkWriteUpdates_def Let_def)
qed

theorem checkpoint_of_flush_witness:
  "fresh_ids ((syncMode [] None)\<lparr>updates :=
       [\<lparr>target_id = JNum 1, update = 0, resumeToken = JNum 101\<rparr>,
        \<lparr>target_id = JNum 2, update = 0, resumeToken = JNum 102\<rparr>]\<rparr>)
   \<and> run [Change OtherChange (JNum 103), Change (UpdateChange (JNum 3) None []) (JNum 104)]
        (bulkWriteUpdates (FromTimer 5) 5 ((syncMode [] None)\<lparr>updates :=
           [\<lparr>target_id = JNum 1, update = 0, resumeToken = JNum 101\<rparr>,
            \<lparr>target_id = JNum 2, update = 0, resumeToken = JNum 102\<rparr>]\<rparr>))
      = Inr \<lparr>store = [], updates = [], timerId = 0, timers = [(0, 1000)], next_id = 2,
             flights = [\<lparr>flight_id = 1, lastResumeToken = JNum 102, op_count = 2, saving = False,
                         origin = FromTimer 5\<rparr>],
             bulkWrites = [[\<lparr>filter_id = JNum 1, set_fields = 0, upsert = True\<rparr>,
                            \<lparr>filter_id = JNum 2, set_fields = 0, upsert = True\<rparr>]],
             saves = [], token_file = None, console = [UpdatedFieldsNotProvided]\<rparr>
   \<and> (\<exists>st3. step (BulkWriteSettled 1 False)
          \<lparr>store = [], updates = [], timerId = 0, timers = [(0, 1000)], next_id = 2,
             flights = [\<lparr>flight_id = 1, lastResumeToken = JNum 102, op_count = 2, saving = False,
                         origin = FromTimer 5\<rparr>],
             bulkWrites = [[\<lparr>filter_id = JNum 1, set_fields = 0, upsert = True\<rparr>,
                            \<lparr>filter_id = JNum 2, set_fields = 0, upsert = True\<rparr>]],
             saves = [], token_file = None, console = [UpdatedFieldsNotProvided]\<rparr> = Inr st3
        \<and> saves st3 = [JNum 102]
        \<and> console st3 = [UpdatedFieldsNotProvided, BulkWriteFailed]
        \<and> updates st3 = [])"
proof -
  let ?st = "(syncMode [] None)\<lparr>updates :=
       [\<lparr>target_id = JNum 1, update = 0, resumeToken = JNum 101\<rparr>,
        \<lparr>target_id = JNum 2, update = 0, resumeToken = JNum 102\<rparr>]\<rparr>"
  let ?during = "[Change OtherChange (JNum 103), Change (UpdateChange (JNum 3) None []) (JNum 104)]"
  let ?st2 = "\<lparr>store = [], updates = [], timerId = 0, timers = [(0, 1000)], next_id = 2,
             flights = [\<lparr>flight_id = 1, lastResumeToken = JNum 102, op_count = 2, saving = False,
                         origin = FromTimer 5\<rparr>],
             bulkWrites = [[\<lparr>filter_id = JNum 1, set_fields = 0, upsert = True\<rparr>,
                            \<lparr>filter_id = JNum 2, set_fields = 0, upsert = True\<rparr>]],
             saves = [], token_file = None, console = [UpdatedFieldsNotProvided]\<rparr>"
  have f: "fresh_ids ?st"
    by (simp add: fresh_ids_def syncMode_def repeat_def)
  have u: "updates ?st \<noteq> []" by simp
  have n: "next_id ?st = 1" by (simp add: syncMode_def repeat_def)
  have r: "run ?during (bulkWriteUpdates (FromTimer 5) 5 ?st) = Inr ?st2"
    by (simp add: bulkWriteUpdates_def syncMode_def repeat_def step_def on_change_def bind_err_def
        flush_if_full_def MAX_BATCH_SIZE_def UPDATES_INTERVAL_def)
  have d: "\<forall>a\<in>set ?during. \<forall>ok. a \<noteq> BulkWriteSettled (next_id ?st) ok" by simp
  have "\<exists>st3. step (BulkWriteSettled 1 False) ?st2 = Inr st3
        \<and> saves st3 = [JNum 102]
        \<and> console st3 = [UpdatedFieldsNotProvided, BulkWriteFailed]
        \<and> updates st3 = []"
    using checkpoint_of_flush [OF f u r d, THEN conjunct2, THEN conjunct2, rule_format, of False]
    unfolding n by auto
  with f r show ?thesis by blast
qed

end
